theory Spec2Isabelle
  imports Main "HOL-Library.Multiset"
begin

section \<open>Common conventions\<close>

text \<open>
  A JavaScript \<open>Date\<close> is its millisecond timestamp (\<open>getTime()\<close>), an \<^typ>\<open>int\<close>.
  A thrown exception is the left injection of a sum: a function that can throw returns
  \<open>exn + 'a\<close>, and \<open>Inl (Error msg)\<close> is the exception leaving the function uncaught
  (no function of the modelled classes has a \<open>try\<close>/\<open>catch\<close>). \<open>Error\<close> is what
  \<open>throw new Error(msg)\<close> throws; \<open>TypeError\<close> is what the runtime throws when a
  property that is not a function is called.
  A JavaScript \<open>Map\<close> that is only read by key is a HOL map; one that is iterated is an
  association list in insertion order.
\<close>

datatype exn = Error string | TypeError string

fun map_get :: "('k \<times> 'v) list \<Rightarrow> 'k \<Rightarrow> 'v option" where
  "map_get [] k = None"
| "map_get ((k', v) # kvs) k = (if k' = k then Some v else map_get kvs k)"

fun map_has :: "('k \<times> 'v) list \<Rightarrow> 'k \<Rightarrow> bool" where
  "map_has [] k = False"
| "map_has ((k', v) # kvs) k = (k' = k \<or> map_has kvs k)"

text \<open>\<open>Map.set\<close>: an existing key keeps its place, a new key goes to the end.\<close>

fun map_set :: "('k \<times> 'v) list \<Rightarrow> 'k \<Rightarrow> 'v \<Rightarrow> ('k \<times> 'v) list" where
  "map_set [] k v = [(k, v)]"
| "map_set ((k', v') # kvs) k v =
     (if k' = k then (k, v) # kvs else (k', v') # map_set kvs k v)"

section \<open>Lifecycle state machine (class NoticeStateMachine)\<close>

datatype NoticeState =
  DRAFT | SUBMITTED | MODERATION_PENDING | APPROVED | REJECTED
  | SCHEDULED | ACTIVE | EXPIRED | ARCHIVED | REINSTATED

datatype NoticeEvent =
  SUBMIT | APPROVE | REJECT | SCHEDULE | ACTIVATE | EXPIRE | ARCHIVE | REINSTATE | UPDATE

text \<open>The string values of the two enums, as they appear in messages.\<close>

fun state_str :: "NoticeState \<Rightarrow> string" where
  "state_str DRAFT = ''draft''"
| "state_str SUBMITTED = ''submitted''"
| "state_str MODERATION_PENDING = ''moderation_pending''"
| "state_str APPROVED = ''approved''"
| "state_str REJECTED = ''rejected''"
| "state_str SCHEDULED = ''scheduled''"
| "state_str ACTIVE = ''active''"
| "state_str EXPIRED = ''expired''"
| "state_str ARCHIVED = ''archived''"
| "state_str REINSTATED = ''reinstated''"

fun event_str :: "NoticeEvent \<Rightarrow> string" where
  "event_str SUBMIT = ''submit''"
| "event_str APPROVE = ''approve''"
| "event_str REJECT = ''reject''"
| "event_str SCHEDULE = ''schedule''"
| "event_str ACTIVATE = ''activate''"
| "event_str EXPIRE = ''expire''"
| "event_str ARCHIVE = ''archive''"
| "event_str REINSTATE = ''reinstate''"
| "event_str UPDATE = ''update''"

text \<open>\<open>Object.values(NoticeState)\<close>: the states in declaration order.\<close>

definition NoticeState_values :: "NoticeState list" where
  "NoticeState_values =
     [DRAFT, SUBMITTED, MODERATION_PENDING, APPROVED, REJECTED,
      SCHEDULED, ACTIVE, EXPIRED, ARCHIVED, REINSTATED]"

text \<open>enum UserRole; the role of an actor arrives as a plain string.\<close>

definition UserRole_ADMIN :: string where "UserRole_ADMIN = ''admin''"
definition UserRole_MODERATOR :: string where "UserRole_MODERATOR = ''moderator''"
definition UserRole_PUBLISHER :: string where "UserRole_PUBLISHER = ''publisher''"
definition UserRole_USER :: string where "UserRole_USER = ''user''"

text \<open>
  \<open>metadata\<close> has type \<open>any\<close>; the only property the machine reads is
  \<open>scheduledTime\<close>. The repository passes a \<open>Date\<close> there, which is truthy whenever it
  is present; it is modelled as an optional millisecond timestamp.
\<close>

record Metadata =
  scheduledTime :: "int option"

record TransitionInput =
  event :: NoticeEvent
  timestamp :: int
  userId :: string
  userRole :: string
  metadata :: "Metadata option"

record GuardResult =
  allowed :: bool
  reason :: "string option"

record NoticeContext =
  ctx_id :: string
  currentState :: NoticeState
  createdAt :: int
  visibleFrom :: "int option"
  visibleUntil :: "int option"
  priority :: int
  authorId :: string
  lastModifiedAt :: int

record StateTransition =
  trans_id :: string
  noticeId :: string
  fromState :: NoticeState
  toState :: NoticeState
  event :: NoticeEvent
  timestamp :: int
  userId :: string
  userRole :: string
  metadata :: "Metadata option"
  isValid :: bool
  reason :: "string option"

record FSMValidation =
  isValid :: bool
  issues :: "string list"

text \<open>
  The fields of the class. \<open>transitionTable\<close> is iterated by \<open>validateFSM\<close>, so it is
  an association list in insertion order, as is each inner \<open>Map\<close>.
\<close>

record NoticeStateMachine =
  transitionTable :: "(NoticeState \<times> (NoticeEvent \<times> NoticeState) list) list"
  stateLog :: "StateTransition list"
  noticeStates :: "string \<rightharpoonup> NoticeState"
  noticeContexts :: "string \<rightharpoonup> NoticeContext"

type_synonym table = "(NoticeState \<times> (NoticeEvent \<times> NoticeState) list) list"

definition addTransition :: "NoticeState \<Rightarrow> NoticeEvent \<Rightarrow> NoticeState \<Rightarrow> table \<Rightarrow> table" where
  "addTransition fromSt ev toSt tbl =
     (let tbl1 = (if \<not> map_has tbl fromSt then map_set tbl fromSt [] else tbl)
      in case map_get tbl1 fromSt of
           Some row \<Rightarrow> map_set tbl1 fromSt (map_set row ev toSt)
         | None \<Rightarrow> tbl1)"

definition initializeTransitionTable :: "table \<Rightarrow> table" where
  "initializeTransitionTable =
     addTransition REJECTED REINSTATE REINSTATED \<circ>
     addTransition REINSTATED ARCHIVE ARCHIVED \<circ>
     addTransition REINSTATED APPROVE APPROVED \<circ>
     addTransition ARCHIVED REINSTATE REINSTATED \<circ>
     addTransition EXPIRED REINSTATE REINSTATED \<circ>
     addTransition EXPIRED ARCHIVE ARCHIVED \<circ>
     addTransition ACTIVE ARCHIVE ARCHIVED \<circ>
     addTransition ACTIVE EXPIRE EXPIRED \<circ>
     addTransition SCHEDULED REJECT REJECTED \<circ>
     addTransition SCHEDULED ACTIVATE ACTIVE \<circ>
     addTransition APPROVED REJECT REJECTED \<circ>
     addTransition APPROVED ACTIVATE ACTIVE \<circ>
     addTransition APPROVED SCHEDULE SCHEDULED \<circ>
     addTransition MODERATION_PENDING REJECT REJECTED \<circ>
     addTransition MODERATION_PENDING APPROVE APPROVED \<circ>
     addTransition SUBMITTED UPDATE DRAFT \<circ>
     addTransition SUBMITTED REJECT REJECTED \<circ>
     addTransition SUBMITTED APPROVE MODERATION_PENDING \<circ>
     addTransition DRAFT ARCHIVE ARCHIVED \<circ>
     addTransition DRAFT UPDATE DRAFT \<circ>
     addTransition DRAFT SUBMIT SUBMITTED"

text \<open>The constructor: empty fields, then \<open>initializeTransitionTable()\<close>.\<close>

definition new_NoticeStateMachine :: NoticeStateMachine where
  "new_NoticeStateMachine =
     \<lparr>transitionTable = initializeTransitionTable [],
      stateLog = [],
      noticeStates = Map.empty,
      noticeContexts = Map.empty\<rparr>"

definition logTransition :: "StateTransition \<Rightarrow> NoticeStateMachine \<Rightarrow> NoticeStateMachine" where
  "logTransition t m = m\<lparr>stateLog := stateLog m @ [t]\<rparr>"

text \<open>
  \<open>generateTransitionId()\<close> reads the clock and \<open>Math.random()\<close>; the id it returns
  is a parameter \<open>tid\<close> of every operation that logs, and \<open>new Date()\<close> is a parameter
  \<open>now\<close>.
\<close>

definition initializeNotice ::
  "string \<Rightarrow> int \<Rightarrow> string \<Rightarrow> NoticeContext \<Rightarrow> NoticeStateMachine \<Rightarrow> NoticeStateMachine" where
  "initializeNotice tid now nid context m =
     logTransition
       \<lparr>trans_id = tid, noticeId = nid, fromState = DRAFT, toState = DRAFT,
        event = UPDATE, timestamp = now, userId = ''system'', userRole = ''system'',
        metadata = None, isValid = True, reason = Some ''Initial state''\<rparr>
       (m\<lparr>noticeStates := (noticeStates m)(nid \<mapsto> DRAFT),
          noticeContexts := (noticeContexts m)(nid \<mapsto> context)\<rparr>)"

definition getNextState :: "NoticeStateMachine \<Rightarrow> NoticeState \<Rightarrow> NoticeEvent \<Rightarrow> NoticeState option" where
  "getNextState m st ev =
     (case map_get (transitionTable m) st of
        None \<Rightarrow> None
      | Some stateTransitions \<Rightarrow> map_get stateTransitions ev)"

text \<open>
  \<open>daysSinceArchived > 30\<close> divides a difference of millisecond timestamps by
  \<open>1000 * 60 * 60 * 24\<close> in floating point; for integer timestamps the comparison is
  the integer one written here.
\<close>

definition evaluateGuards ::
  "NoticeState \<Rightarrow> NoticeState \<Rightarrow> TransitionInput \<Rightarrow> NoticeContext \<Rightarrow> GuardResult" where
  "evaluateGuards fromSt toSt inp context =
     (let ev = TransitionInput.event inp;
          role = TransitionInput.userRole inp;
          ts = TransitionInput.timestamp inp
      in
      if ev = APPROVE \<and> role \<noteq> UserRole_MODERATOR \<and> role \<noteq> UserRole_ADMIN then
        \<lparr>allowed = False, reason = Some ''Only moderators can approve notices''\<rparr>
      else if ev = REJECT \<and> role \<noteq> UserRole_MODERATOR \<and> role \<noteq> UserRole_ADMIN then
        \<lparr>allowed = False, reason = Some ''Only moderators can reject notices''\<rparr>
      else if ev = REINSTATE \<and> role \<noteq> UserRole_ADMIN then
        \<lparr>allowed = False, reason = Some ''Only admins can reinstate notices''\<rparr>
      else if ev = SUBMIT \<and> role = UserRole_USER then
        \<lparr>allowed = False, reason = Some ''Users cannot submit notices directly''\<rparr>
      else if ev = ACTIVATE \<and>
              (case visibleFrom context of None \<Rightarrow> False | Some vf \<Rightarrow> vf > ts) then
        \<lparr>allowed = False, reason = Some ''Cannot activate before visible_from time''\<rparr>
      else if ev = EXPIRE \<and>
              (case visibleUntil context of None \<Rightarrow> False | Some vu \<Rightarrow> vu > ts) then
        \<lparr>allowed = False, reason = Some ''Cannot expire before visible_until time''\<rparr>
      else if fromSt = ARCHIVED \<and> toSt = REINSTATED \<and>
              ts - lastModifiedAt context > 30 * (1000 * 60 * 60 * 24) \<and>
              role \<noteq> UserRole_ADMIN then
        \<lparr>allowed = False, reason = Some
           ''Cannot reinstate notices archived for more than 30 days without admin privileges''\<rparr>
      else \<lparr>allowed = True, reason = None\<rparr>)"

definition scheduledTime_truthy :: "Metadata option \<Rightarrow> int option" where
  "scheduledTime_truthy md =
     (case md of
        None \<Rightarrow> None
      | Some d \<Rightarrow> scheduledTime d)"

definition updateContextAfterTransition ::
  "NoticeContext \<Rightarrow> NoticeState \<Rightarrow> TransitionInput \<Rightarrow> NoticeContext" where
  "updateContextAfterTransition context newState inp =
     (let c1 = context\<lparr>currentState := newState,
                       lastModifiedAt := TransitionInput.timestamp inp\<rparr>
      in case (if newState = SCHEDULED
               then scheduledTime_truthy (TransitionInput.metadata inp) else None) of
           Some t \<Rightarrow> c1\<lparr>visibleFrom := Some t\<rparr>
         | None \<Rightarrow> c1)"

text \<open>
  \<open>transition\<close>. The context object held in \<open>noticeContexts\<close> is mutated in place by
  \<open>updateContextAfterTransition\<close>; here the entry of the map is replaced.
\<close>

definition mk_transition ::
  "string \<Rightarrow> string \<Rightarrow> NoticeState \<Rightarrow> NoticeState \<Rightarrow> TransitionInput \<Rightarrow> bool \<Rightarrow> string option
     \<Rightarrow> StateTransition" where
  "mk_transition tid nid fromSt toSt inp valid rsn =
     \<lparr>trans_id = tid, noticeId = nid, fromState = fromSt, toState = toSt,
      event = TransitionInput.event inp,
      timestamp = TransitionInput.timestamp inp,
      userId = TransitionInput.userId inp,
      userRole = TransitionInput.userRole inp,
      metadata = TransitionInput.metadata inp,
      isValid = valid, reason = rsn\<rparr>"

definition transition ::
  "string \<Rightarrow> string \<Rightarrow> TransitionInput \<Rightarrow> NoticeStateMachine
     \<Rightarrow> exn + (StateTransition \<times> NoticeStateMachine)" where
  "transition tid nid inp m =
     (case noticeStates m nid of
        None \<Rightarrow> Inl (Error (''Notice '' @ nid @ '' not found''))
      | Some curState \<Rightarrow>
        (case noticeContexts m nid of
           None \<Rightarrow> Inl (Error (''Notice context '' @ nid @ '' not found''))
         | Some context \<Rightarrow>
           (case getNextState m curState (TransitionInput.event inp) of
              None \<Rightarrow>
                (let t = mk_transition tid nid curState curState inp False
                           (Some (''Invalid transition from '' @ state_str curState @
                                  '' with event '' @ event_str (TransitionInput.event inp)))
                 in Inr (t, logTransition t m))
            | Some newState \<Rightarrow>
                (let guardResult = evaluateGuards curState newState inp context
                 in if allowed guardResult then
                      (let m1 = m\<lparr>noticeStates := (noticeStates m)(nid \<mapsto> newState)\<rparr>;
                           t = mk_transition tid nid curState newState inp True None;
                           m2 = m1\<lparr>noticeContexts := (noticeContexts m1)
                                  (nid \<mapsto> updateContextAfterTransition context newState inp)\<rparr>
                       in Inr (t, logTransition t m2))
                    else
                      (let t = mk_transition tid nid curState curState inp False
                                 (GuardResult.reason guardResult)
                       in Inr (t, logTransition t m))))))"

subsection \<open>validateFSM\<close>

definition check_outgoing :: "table \<Rightarrow> NoticeState \<Rightarrow> string list \<Rightarrow> string list" where
  "check_outgoing tbl st iss =
     (if (case map_get tbl st of None \<Rightarrow> True | Some transitions \<Rightarrow> length transitions = 0)
      then (if st \<noteq> ARCHIVED \<and> st \<noteq> REJECTED
            then iss @ [''State '' @ state_str st @ '' has no outgoing transitions'']
            else iss)
      else iss)"

text \<open>
  One pass of the body of \<open>while (changed)\<close>: the outer \<open>forEach\<close> over the table and
  the inner one over a row. \<open>reachableStates\<close> is a \<open>Set\<close>, kept as the list of its
  members in insertion order; the second component is the flag \<open>changed\<close>.
\<close>

fun visit_row ::
  "(NoticeEvent \<times> NoticeState) list \<Rightarrow> NoticeState list \<times> bool \<Rightarrow> NoticeState list \<times> bool" where
  "visit_row [] acc = acc"
| "visit_row ((ev, toSt) # row) (reach, changed) =
     visit_row row (if toSt \<notin> set reach then (reach @ [toSt], True) else (reach, changed))"

fun visit_table :: "table \<Rightarrow> NoticeState list \<times> bool \<Rightarrow> NoticeState list \<times> bool" where
  "visit_table [] acc = acc"
| "visit_table ((fromSt, row) # tbl) (reach, changed) =
     visit_table tbl
       (if fromSt \<in> set reach then visit_row row (reach, changed) else (reach, changed))"

lemma NoticeState_UNIV: "(UNIV :: NoticeState set) = set NoticeState_values"
proof -
  have "st \<in> set NoticeState_values" for st
    by (cases st) (simp_all add: NoticeState_values_def)
  then show ?thesis by blast
qed

lemma finite_NoticeState: "finite (A :: NoticeState set)"
proof (rule finite_subset)
  show "A \<subseteq> set NoticeState_values" using NoticeState_UNIV by blast
  show "finite (set NoticeState_values)" by simp
qed

lemma visit_row_grows:
  "set (fst acc) \<subseteq> set (fst (visit_row row acc)) \<and>
   (snd (visit_row row acc) \<longrightarrow> snd acc \<or> set (fst acc) \<subset> set (fst (visit_row row acc)))"
proof (induction row acc rule: visit_row.induct)
  case (1 acc)
  then show ?case by simp
next
  case (2 ev toSt row reach changed)
  then show ?case by (cases "toSt \<in> set reach") auto
qed

lemma visit_table_grows:
  "set (fst acc) \<subseteq> set (fst (visit_table tbl acc)) \<and>
   (snd (visit_table tbl acc) \<longrightarrow> snd acc \<or> set (fst acc) \<subset> set (fst (visit_table tbl acc)))"
proof (induction tbl acc rule: visit_table.induct)
  case (1 acc)
  then show ?case by simp
next
  case (2 fromSt row tbl reach changed)
  show ?case
  proof (cases "fromSt \<in> set reach")
    case False
    with 2 show ?thesis by simp
  next
    case True
    let ?mid = "visit_row row (reach, changed)"
    from 2 True
    have ih: "set (fst ?mid) \<subseteq> set (fst (visit_table tbl ?mid)) \<and>
        (snd (visit_table tbl ?mid) \<longrightarrow> snd ?mid \<or> set (fst ?mid) \<subset> set (fst (visit_table tbl ?mid)))"
      by simp
    have row: "set reach \<subseteq> set (fst ?mid) \<and>
        (snd ?mid \<longrightarrow> changed \<or> set reach \<subset> set (fst ?mid))"
      using visit_row_grows [of "(reach, changed)" row] by simp
    from ih row True show ?thesis by auto
  qed
qed

function reach_loop :: "table \<Rightarrow> NoticeState list \<Rightarrow> NoticeState list" where
  "reach_loop tbl reach =
     (if snd (visit_table tbl (reach, False))
      then reach_loop tbl (fst (visit_table tbl (reach, False)))
      else fst (visit_table tbl (reach, False)))"
  by pat_completeness auto

termination
proof (relation "measure (\<lambda>(tbl, reach). card (UNIV - set reach))")
  show "wf (measure (\<lambda>(tbl, reach). card (UNIV - set reach)))" by simp
next
  fix tbl :: table and reach :: "NoticeState list"
  assume ch: "snd (visit_table tbl (reach, False))"
  let ?r = "fst (visit_table tbl (reach, False))"
  from ch visit_table_grows [of "(reach, False)" tbl] have "set reach \<subset> set ?r" by simp
  then have "UNIV - set ?r \<subset> UNIV - set reach" by blast
  then have "card (UNIV - set ?r) < card (UNIV - set reach)"
    by (rule psubset_card_mono [OF finite_NoticeState])
  then show "((tbl, ?r), (tbl, reach)) \<in> measure (\<lambda>(tbl, reach). card (UNIV - set reach))"
    by simp
qed

declare reach_loop.simps [simp del]

definition check_reachable :: "NoticeState list \<Rightarrow> NoticeState \<Rightarrow> string list \<Rightarrow> string list" where
  "check_reachable reachableStates st iss =
     (if st \<notin> set reachableStates
      then iss @ [''State '' @ state_str st @ '' is unreachable'']
      else iss)"

definition validateFSM :: "NoticeStateMachine \<Rightarrow> FSMValidation" where
  "validateFSM m =
     (let iss1 = fold (check_outgoing (transitionTable m)) NoticeState_values [];
          reachableStates = reach_loop (transitionTable m) [DRAFT];
          iss2 = fold (check_reachable reachableStates) NoticeState_values iss1
      in \<lparr>isValid = (length iss2 = 0), issues = iss2\<rparr>)"

text \<open>The edges of the transition table, for stating reachability.\<close>

definition fsm_edges :: "NoticeStateMachine \<Rightarrow> (NoticeState \<times> NoticeState) set" where
  "fsm_edges m = {(a, b). \<exists>ev. getNextState m a ev = Some b}"

section \<open>Audience targeting index (class AudienceTargetingService)\<close>

record UserAttributes =
  userId :: string
  role :: string
  department :: string
  location :: string
  language :: string
  deviceCapabilities :: "string list"
  tags :: "string list"

record AudienceRule =
  rule_id :: string
  expression :: string
  topics :: "string list"
  departments :: "string list"
  roles :: "string list"
  locations :: "string list"
  tags :: "string list"

subsection \<open>The Bloom filter\<close>

text \<open>
  Modelled from the spec: the class \<open>BloomFilter\<close> comes from the package
  \<open>bloom-filters\<close>, which is not part of the repository. The spec describes it as a
  bit array of length \<open>m\<close> with \<open>k\<close> hash functions: \<open>add\<close> sets the \<open>k\<close> bits of
  a key, \<open>has\<close> answers whether all \<open>k\<close> bits of a key are set. The hash functions are
  a parameter: \<open>bf_hash i key\<close> is the value of the \<open>i\<close>-th one, reduced modulo the
  length of the array.
\<close>

record BloomFilter =
  bf_size :: nat
  bf_nbHashes :: nat
  bf_hash :: "nat \<Rightarrow> string \<Rightarrow> nat"
  bf_filter :: "bool list"

definition new_BloomFilter :: "(nat \<Rightarrow> string \<Rightarrow> nat) \<Rightarrow> nat \<Rightarrow> nat \<Rightarrow> BloomFilter" where
  "new_BloomFilter h m k =
     \<lparr>bf_size = m, bf_nbHashes = k, bf_hash = h, bf_filter = replicate m False\<rparr>"

definition bf_indexes :: "BloomFilter \<Rightarrow> string \<Rightarrow> nat list" where
  "bf_indexes bf key = map (\<lambda>i. bf_hash bf i key mod bf_size bf) [0..<bf_nbHashes bf]"

definition bf_add :: "string \<Rightarrow> BloomFilter \<Rightarrow> BloomFilter" where
  "bf_add key bf =
     bf\<lparr>bf_filter := fold (\<lambda>i bits. bits[i := True]) (bf_indexes bf key) (bf_filter bf)\<rparr>"

definition bf_has :: "BloomFilter \<Rightarrow> string \<Rightarrow> bool" where
  "bf_has bf key =
     list_all (\<lambda>i. i < length (bf_filter bf) \<and> bf_filter bf ! i) (bf_indexes bf key)"

subsection \<open>The service\<close>

text \<open>
  A \<open>RoaringBitmap32\<close>, from the package \<open>roaring\<close>, is the finite set of the numbers
  it holds: \<open>add\<close> inserts a number, \<open>size\<close> is the number of members and
  \<open>forEach\<close> visits the members in increasing order. The union and the intersection
  into the receiver are the instance methods \<open>orInPlace\<close> and \<open>andInPlace\<close>;
  \<open>or\<close> and \<open>and\<close> are static functions of the class, not methods of an instance.
  \<open>userIdToNumber\<close> is iterated, so it is an association list; \<open>Set<string>\<close> is
  only tested for membership.
\<close>

record AudienceTargetingService =
  userAttributes :: "string \<rightharpoonup> UserAttributes"
  topicSubscriptions :: "string \<rightharpoonup> string set"
  noticeEligibility :: "string \<rightharpoonup> AudienceRule"
  invertedIndex :: "string \<rightharpoonup> string set"
  departmentBitmaps :: "string \<rightharpoonup> nat set"
  roleBitmaps :: "string \<rightharpoonup> nat set"
  locationBitmaps :: "string \<rightharpoonup> nat set"
  seenNoticesBloom :: BloomFilter
  userIdToNumber :: "(string \<times> nat) list"
  numberToUserId :: "nat \<rightharpoonup> string"
  nextUserId :: nat

definition new_AudienceTargetingService ::
  "(nat \<Rightarrow> string \<Rightarrow> nat) \<Rightarrow> AudienceTargetingService" where
  "new_AudienceTargetingService h =
     \<lparr>userAttributes = Map.empty, topicSubscriptions = Map.empty,
      noticeEligibility = Map.empty, invertedIndex = Map.empty,
      departmentBitmaps = Map.empty, roleBitmaps = Map.empty, locationBitmaps = Map.empty,
      seenNoticesBloom = new_BloomFilter h 10000 4,
      userIdToNumber = [], numberToUserId = Map.empty, nextUserId = 1\<rparr>"

definition ensureBitmap :: "(string \<rightharpoonup> nat set) \<Rightarrow> string \<Rightarrow> (string \<rightharpoonup> nat set)" where
  "ensureBitmap bitmapMap key = (if bitmapMap key = None then bitmapMap(key \<mapsto> {}) else bitmapMap)"

text \<open>\<open>bitmapMap.get(key)!.add(n)\<close>, after \<open>ensureBitmap\<close> has made the key present.\<close>

definition bitmap_add :: "(string \<rightharpoonup> nat set) \<Rightarrow> string \<Rightarrow> nat \<Rightarrow> (string \<rightharpoonup> nat set)" where
  "bitmap_add bitmapMap key n =
     (case bitmapMap key of
        Some b \<Rightarrow> bitmapMap(key \<mapsto> insert n b)
      | None \<Rightarrow> bitmapMap)"

definition ensureInvertedIndex :: "(string \<rightharpoonup> string set) \<Rightarrow> string \<Rightarrow> (string \<rightharpoonup> string set)" where
  "ensureInvertedIndex idx tm = (if idx tm = None then idx(tm \<mapsto> {}) else idx)"

definition index_tag :: "string \<Rightarrow> string \<Rightarrow> (string \<rightharpoonup> string set) \<Rightarrow> (string \<rightharpoonup> string set)" where
  "index_tag uid tag idx =
     (let idx1 = ensureInvertedIndex idx tag
      in case idx1 tag of Some us \<Rightarrow> idx1(tag \<mapsto> insert uid us) | None \<Rightarrow> idx1)"

definition registerUser :: "UserAttributes \<Rightarrow> AudienceTargetingService \<Rightarrow> AudienceTargetingService" where
  "registerUser attrs svc =
     (let uid = UserAttributes.userId attrs;
          s1 = svc\<lparr>userAttributes := (userAttributes svc)(uid \<mapsto> attrs)\<rparr>;
          s2 = (if \<not> map_has (userIdToNumber s1) uid
                then s1\<lparr>userIdToNumber := map_set (userIdToNumber s1) uid (nextUserId s1),
                        numberToUserId := (numberToUserId s1)(nextUserId s1 \<mapsto> uid),
                        nextUserId := nextUserId s1 + 1\<rparr>
                else s1)
      in case map_get (userIdToNumber s2) uid of
           None \<Rightarrow> s2
         | Some numericId \<Rightarrow>
             s2\<lparr>departmentBitmaps :=
                   bitmap_add (ensureBitmap (departmentBitmaps s2) (department attrs))
                     (department attrs) numericId,
                roleBitmaps :=
                   bitmap_add (ensureBitmap (roleBitmaps s2) (role attrs)) (role attrs) numericId,
                locationBitmaps :=
                   bitmap_add (ensureBitmap (locationBitmaps s2) (location attrs))
                     (location attrs) numericId,
                invertedIndex := fold (index_tag uid) (UserAttributes.tags attrs) (invertedIndex s2)\<rparr>)"

definition seen_key :: "string \<Rightarrow> string \<Rightarrow> string" where
  "seen_key uid nid = uid @ '':'' @ nid"

definition hasUserSeenNotice :: "AudienceTargetingService \<Rightarrow> string \<Rightarrow> string \<Rightarrow> bool" where
  "hasUserSeenNotice svc uid nid = bf_has (seenNoticesBloom svc) (seen_key uid nid)"

definition markNoticeSeen :: "string \<Rightarrow> string \<Rightarrow> AudienceTargetingService \<Rightarrow> AudienceTargetingService" where
  "markNoticeSeen uid nid svc =
     svc\<lparr>seenNoticesBloom := bf_add (seen_key uid nid) (seenNoticesBloom svc)\<rparr>"

text \<open>
  The loop \<open>values.forEach(v => { const bitmap = m.get(v); if (bitmap) u.or(bitmap) })\<close>
  on the bitmap \<open>u\<close>. For the first listed value that has a bitmap, the call
  \<open>u.or(bitmap)\<close> finds no method \<open>or\<close> on the instance and throws
  \<open>TypeError: <receiver>.or is not a function\<close>; a value without a bitmap leaves \<open>u\<close>
  as it is.
\<close>

fun bitmap_union ::
  "string \<Rightarrow> (string \<rightharpoonup> nat set) \<Rightarrow> string list \<Rightarrow> nat set \<Rightarrow> exn + nat set" where
  "bitmap_union receiver bitmapMap [] u = Inr u"
| "bitmap_union receiver bitmapMap (v # vals) u =
     (case bitmapMap v of
        Some bitmap \<Rightarrow> Inl (TypeError (receiver @ ''.or is not a function''))
      | None \<Rightarrow> bitmap_union receiver bitmapMap vals u)"

text \<open>
  \<open>if (eligibleBitmap.size === 0) eligibleBitmap = union; else eligibleBitmap.and(union)\<close>:
  the bitmap is replaced when its size is 0; otherwise the call of \<open>and\<close> on the
  instance throws.
\<close>

definition replace_or_and :: "nat set \<Rightarrow> nat set \<Rightarrow> exn + nat set" where
  "replace_or_and eligible u =
     (if eligible = {} then Inr u
      else Inl (TypeError ''eligibleBitmap.and is not a function''))"

text \<open>
  The local \<open>eligibleBitmap\<close> of \<open>findEligibleUsers\<close> after each of the three blocks of
  the \<open>else\<close> branch, or the exception that left the block.
\<close>

definition after_departments :: "AudienceRule \<Rightarrow> AudienceTargetingService \<Rightarrow> exn + nat set" where
  "after_departments rule svc =
     (if length (departments rule) > 0
      then bitmap_union ''deptUnion'' (departmentBitmaps svc) (departments rule) {}
      else Inr {})"

definition after_roles :: "AudienceRule \<Rightarrow> AudienceTargetingService \<Rightarrow> exn + nat set" where
  "after_roles rule svc =
     (case after_departments rule svc of
        Inl e \<Rightarrow> Inl e
      | Inr eligible \<Rightarrow>
          if length (roles rule) > 0
          then (case bitmap_union ''roleUnion'' (roleBitmaps svc) (roles rule) {} of
                  Inl e \<Rightarrow> Inl e
                | Inr roleUnion \<Rightarrow> replace_or_and eligible roleUnion)
          else Inr eligible)"

definition after_locations :: "AudienceRule \<Rightarrow> AudienceTargetingService \<Rightarrow> exn + nat set" where
  "after_locations rule svc =
     (case after_roles rule svc of
        Inl e \<Rightarrow> Inl e
      | Inr eligible \<Rightarrow>
          if length (locations rule) > 0
          then (case bitmap_union ''locationUnion'' (locationBitmaps svc) (locations rule) {} of
                  Inl e \<Rightarrow> Inl e
                | Inr locationUnion \<Rightarrow> replace_or_and eligible locationUnion)
          else Inr eligible)"

definition eligibleBitmap :: "AudienceRule \<Rightarrow> AudienceTargetingService \<Rightarrow> exn + nat set" where
  "eligibleBitmap rule svc =
     (if length (departments rule) = 0 \<and> length (roles rule) = 0 \<and> length (locations rule) = 0
      then Inr (fold (\<lambda>(uid, numericId) b. insert numericId b) (userIdToNumber svc) {})
      else after_locations rule svc)"

definition tagEligibleUsers :: "AudienceRule \<Rightarrow> AudienceTargetingService \<Rightarrow> string set" where
  "tagEligibleUsers rule svc =
     fold (\<lambda>tag acc. case invertedIndex svc tag of Some usersWithTag \<Rightarrow> acc \<union> usersWithTag
                                                | None \<Rightarrow> acc)
       (AudienceRule.tags rule) {}"

text \<open>
  The two final loops over the bitmap. \<open>if (userId)\<close> is false for a missing entry and
  for the empty string.
\<close>

definition bitmap_to_users ::
  "AudienceRule \<Rightarrow> AudienceTargetingService \<Rightarrow> nat set \<Rightarrow> string list" where
  "bitmap_to_users rule svc bitmap =
     (if length (AudienceRule.tags rule) > 0 then
        (let tagged = tagEligibleUsers rule svc
         in concat (map (\<lambda>numericId.
              case numberToUserId svc numericId of
                Some uid \<Rightarrow> if uid \<noteq> [] \<and> uid \<in> tagged then [uid] else []
              | None \<Rightarrow> [])
            (sorted_list_of_set bitmap)))
      else
        concat (map (\<lambda>numericId.
              case numberToUserId svc numericId of
                Some uid \<Rightarrow> if uid \<noteq> [] then [uid] else []
              | None \<Rightarrow> [])
            (sorted_list_of_set bitmap)))"

definition findEligibleUsers ::
  "AudienceRule \<Rightarrow> AudienceTargetingService \<Rightarrow> exn + string list" where
  "findEligibleUsers rule svc =
     (case eligibleBitmap rule svc of
        Inl e \<Rightarrow> Inl e
      | Inr bitmap \<Rightarrow> Inr (bitmap_to_users rule svc bitmap))"

text \<open>A run of the service: registrations and marks in any order.\<close>

datatype targeting_op = Register UserAttributes | MarkSeen string string

fun targeting_step :: "targeting_op \<Rightarrow> AudienceTargetingService \<Rightarrow> AudienceTargetingService" where
  "targeting_step (Register attrs) svc = registerUser attrs svc"
| "targeting_step (MarkSeen uid nid) svc = markNoticeSeen uid nid svc"

section \<open>Priority scheduler (class NoticeScheduler)\<close>

datatype DeliveryStatus = pending | delivered | failed | expired

record DeliveryCheckpoint =
  targetId :: string
  noticeVersionId :: string
  status :: DeliveryStatus
  lastAttemptAt :: int
  attempts :: nat
  nextRetryAt :: "int option"

record TimeInterval =
  start :: int
  end_at :: int
  noticeId :: string
  isBlackout :: "bool option"

datatype NoticePriority = EMERGENCY | URGENT | HIGH | NORMAL | LOW

text \<open>The numeric values of the enum.\<close>

fun priority_value :: "NoticePriority \<Rightarrow> int" where
  "priority_value EMERGENCY = 0"
| "priority_value URGENT = 1"
| "priority_value HIGH = 2"
| "priority_value NORMAL = 3"
| "priority_value LOW = 4"

record ScheduledNotice =
  noticeId :: string
  title :: string
  content :: string
  priority :: NoticePriority
  visibleFrom :: int
  visibleUntil :: int
  targetAudience :: "string list"
  channels :: "string list"
  createdAt :: int
  retryCount :: nat
  maxRetries :: nat

text \<open>
  The fields of the class. \<open>dispatchQueue\<close> is the array that holds the binary heap.
  The cron jobs and the interval timer of \<open>initializeScheduler\<close> only decide when
  \<open>processScheduledNotices\<close>, \<open>cleanupExpiredNotices\<close> and \<open>processTimerWheel\<close>
  run; each run is a call of the function below with the time \<open>now\<close> that the clock
  shows during the call.
\<close>

record NoticeScheduler =
  dispatchQueue :: "ScheduledNotice list"
  activeNotices :: "string \<rightharpoonup> ScheduledNotice"
  deliveryCheckpoints :: "string \<rightharpoonup> DeliveryCheckpoint list"
  timeIntervals :: "TimeInterval list"
  displayBuffers :: "string \<rightharpoonup> ScheduledNotice list"
  bufferSize :: nat
  timerWheel :: "int \<rightharpoonup> ScheduledNotice list"
  currentTick :: int

definition new_NoticeScheduler :: NoticeScheduler where
  "new_NoticeScheduler =
     \<lparr>dispatchQueue = [], activeNotices = Map.empty, deliveryCheckpoints = Map.empty,
      timeIntervals = [], displayBuffers = Map.empty, bufferSize = 100,
      timerWheel = Map.empty, currentTick = 0\<rparr>"

subsection \<open>The binary heap\<close>

definition comparePriority :: "ScheduledNotice \<Rightarrow> ScheduledNotice \<Rightarrow> int" where
  "comparePriority a b =
     (if priority a \<noteq> priority b
      then priority_value (priority a) - priority_value (priority b)
      else visibleFrom a - visibleFrom b)"

text \<open>
  \<open>heapifyUp\<close> and \<open>heapifyDown\<close> work on the array \<open>dispatchQueue\<close>; they take it
  and return it. \<open>heapifyUp\<close> is only called with the index of the last element, so
  \<open>index\<close> is within the array.
\<close>

function heapifyUp :: "ScheduledNotice list \<Rightarrow> nat \<Rightarrow> ScheduledNotice list" where
  "heapifyUp q index =
     (if index = 0 then q
      else if comparePriority (q ! index) (q ! ((index - 1) div 2)) < 0
           then heapifyUp (q[index := q ! ((index - 1) div 2), (index - 1) div 2 := q ! index])
                  ((index - 1) div 2)
           else q)"
  by pat_completeness auto

termination
  by (relation "measure (\<lambda>(q, index). index)") auto

declare heapifyUp.simps [simp del]

text \<open>The local \<open>smallest\<close> of \<open>heapifyDown\<close> after its two tests.\<close>

definition smallest_of :: "ScheduledNotice list \<Rightarrow> nat \<Rightarrow> nat" where
  "smallest_of q index =
     (let leftChild = 2 * index + 1;
          rightChild = 2 * index + 2;
          smallest1 = (if leftChild < length q \<and> comparePriority (q ! leftChild) (q ! index) < 0
                       then leftChild else index);
          smallest2 = (if rightChild < length q
                          \<and> comparePriority (q ! rightChild) (q ! smallest1) < 0
                       then rightChild else smallest1)
      in smallest2)"

lemma smallest_of_bounds:
  "smallest_of q index \<noteq> index \<Longrightarrow> index < smallest_of q index \<and> smallest_of q index < length q"
  by (auto simp: smallest_of_def Let_def split: if_splits)

function heapifyDown :: "ScheduledNotice list \<Rightarrow> nat \<Rightarrow> ScheduledNotice list" where
  "heapifyDown q index =
     (if smallest_of q index \<noteq> index
      then heapifyDown (q[index := q ! smallest_of q index, smallest_of q index := q ! index])
             (smallest_of q index)
      else q)"
  by pat_completeness auto

termination
proof (relation "measure (\<lambda>(q, index). length q - index)")
  show "wf (measure (\<lambda>(q, index). length q - index))" by simp
next
  fix q :: "ScheduledNotice list" and index :: nat
  assume "smallest_of q index \<noteq> index"
  then have "index < smallest_of q index \<and> smallest_of q index < length q"
    by (rule smallest_of_bounds)
  then show "((q[index := q ! smallest_of q index, smallest_of q index := q ! index],
               smallest_of q index), (q, index)) \<in> measure (\<lambda>(q, index). length q - index)"
    by (simp add: diff_less_mono2)
qed

declare heapifyDown.simps [simp del]

definition insertIntoPriorityQueue :: "ScheduledNotice \<Rightarrow> NoticeScheduler \<Rightarrow> NoticeScheduler" where
  "insertIntoPriorityQueue notice s =
     s\<lparr>dispatchQueue :=
         heapifyUp (dispatchQueue s @ [notice]) (length (dispatchQueue s @ [notice]) - 1)\<rparr>"

definition getNextNotice :: "NoticeScheduler \<Rightarrow> ScheduledNotice option \<times> NoticeScheduler" where
  "getNextNotice s =
     (if length (dispatchQueue s) = 0 then (None, s)
      else
        (let notice = dispatchQueue s ! 0;
             lastNotice = last (dispatchQueue s);
             q1 = butlast (dispatchQueue s)
         in if length q1 > 0
            then (Some notice, s\<lparr>dispatchQueue := heapifyDown (q1[0 := lastNotice]) 0\<rparr>)
            else (Some notice, s\<lparr>dispatchQueue := q1\<rparr>)))"

text \<open>\<open>findIndex\<close>; \<open>None\<close> is the result \<open>-1\<close>.\<close>

fun findIndex :: "('a \<Rightarrow> bool) \<Rightarrow> 'a list \<Rightarrow> nat option" where
  "findIndex P [] = None"
| "findIndex P (x # xs) =
     (if P x then Some 0 else (case findIndex P xs of None \<Rightarrow> None | Some i \<Rightarrow> Some (Suc i)))"

definition removeFromQueue :: "ScheduledNotice \<Rightarrow> NoticeScheduler \<Rightarrow> NoticeScheduler" where
  "removeFromQueue notice s =
     (case findIndex (\<lambda>n. noticeId n = noticeId notice) (dispatchQueue s) of
        None \<Rightarrow> s
      | Some index \<Rightarrow>
          (let lastNotice = last (dispatchQueue s);
               q1 = butlast (dispatchQueue s)
           in if index < length q1
              then s\<lparr>dispatchQueue := heapifyDown (q1[index := lastNotice]) index\<rparr>
              else s\<lparr>dispatchQueue := q1\<rparr>))"

subsection \<open>Activation\<close>

definition createDeliveryCheckpoint ::
  "int \<Rightarrow> string \<Rightarrow> ScheduledNotice \<Rightarrow> NoticeScheduler \<Rightarrow> NoticeScheduler" where
  "createDeliveryCheckpoint now tid notice s =
     (let checkpoint =
            \<lparr>targetId = tid, noticeVersionId = noticeId notice, status = pending,
             lastAttemptAt = now, attempts = 0, nextRetryAt = Some (now + 5 * 60 * 1000)\<rparr>;
          existing = (case deliveryCheckpoints s tid of None \<Rightarrow> [] | Some cps \<Rightarrow> cps)
      in s\<lparr>deliveryCheckpoints := (deliveryCheckpoints s)(tid \<mapsto> existing @ [checkpoint])\<rparr>)"

text \<open>\<open>while (buffer.length > this.bufferSize) buffer.shift()\<close>.\<close>

function shift_while_over :: "nat \<Rightarrow> 'a list \<Rightarrow> 'a list" where
  "shift_while_over cap buffer =
     (if length buffer > cap then shift_while_over cap (tl buffer) else buffer)"
  by pat_completeness auto

termination
  by (relation "measure (\<lambda>(cap, buffer). length buffer)") auto

declare shift_while_over.simps [simp del]

definition addToDisplayBuffer :: "string \<Rightarrow> ScheduledNotice \<Rightarrow> NoticeScheduler \<Rightarrow> NoticeScheduler" where
  "addToDisplayBuffer displayId notice s =
     (let buffer = (case displayBuffers s displayId of None \<Rightarrow> [] | Some b \<Rightarrow> b);
          buffer1 = (if priority notice = EMERGENCY then notice # buffer else buffer @ [notice])
      in s\<lparr>displayBuffers :=
             (displayBuffers s)(displayId \<mapsto> shift_while_over (bufferSize s) buffer1)\<rparr>)"

definition activateNotice :: "int \<Rightarrow> ScheduledNotice \<Rightarrow> NoticeScheduler \<Rightarrow> NoticeScheduler" where
  "activateNotice now notice s =
     (let s1 = s\<lparr>activeNotices := (activeNotices s)(noticeId notice \<mapsto> notice)\<rparr>;
          s2 = fold (\<lambda>tid st. createDeliveryCheckpoint now tid notice st) (targetAudience notice) s1
      in fold (\<lambda>channel st. addToDisplayBuffer channel notice st) (channels notice) s2)"

definition preemptWithEmergency ::
  "int \<Rightarrow> ScheduledNotice \<Rightarrow> NoticeScheduler \<Rightarrow> exn + NoticeScheduler" where
  "preemptWithEmergency now emergencyNotice s =
     (if priority emergencyNotice \<noteq> EMERGENCY
      then Inl (Error ''Only emergency notices can preempt'')
      else Inr (activateNotice now emergencyNotice
                  (s\<lparr>dispatchQueue := emergencyNotice # dispatchQueue s\<rparr>)))"

subsection \<open>Timing wheel and periodic scan\<close>

text \<open>
  The remainder operator \<open>%\<close> of JavaScript truncates towards zero: the result has the
  sign of the dividend. (A result \<open>-0\<close> is the key \<open>0\<close> of a \<open>Map\<close>.)
\<close>

definition js_rem :: "int \<Rightarrow> int \<Rightarrow> int" where
  "js_rem a b = (if a \<ge> 0 then a mod \<bar>b\<bar> else - ((- a) mod \<bar>b\<bar>))"

definition addToTimingWheel :: "int \<Rightarrow> ScheduledNotice \<Rightarrow> NoticeScheduler \<Rightarrow> NoticeScheduler" where
  "addToTimingWheel now notice s =
     (let secondsUntilVisible = (visibleFrom notice - now) div 1000;
          wheelSlot = js_rem (currentTick s + secondsUntilVisible) 3600;
          existing = (case timerWheel s wheelSlot of None \<Rightarrow> [] | Some ns \<Rightarrow> ns)
      in s\<lparr>timerWheel := (timerWheel s)(wheelSlot \<mapsto> existing @ [notice])\<rparr>)"

definition scheduleNotice :: "int \<Rightarrow> ScheduledNotice \<Rightarrow> NoticeScheduler \<Rightarrow> NoticeScheduler" where
  "scheduleNotice now notice s =
     (let s1 = insertIntoPriorityQueue notice s;
          s2 = addToTimingWheel now notice s1
      in s2\<lparr>timeIntervals := timeIntervals s2 @
              [\<lparr>start = visibleFrom notice, end_at = visibleUntil notice,
                TimeInterval.noticeId = noticeId notice, isBlackout = None\<rparr>]\<rparr>)"

definition processTimerWheel :: "int \<Rightarrow> NoticeScheduler \<Rightarrow> NoticeScheduler" where
  "processTimerWheel now s =
     (let s1 = s\<lparr>currentTick := js_rem (currentTick s + 1) 3600\<rparr>
      in case timerWheel s1 (currentTick s1) of
           None \<Rightarrow> s1
         | Some notices \<Rightarrow>
             (let s2 = fold (\<lambda>notice st. if visibleFrom notice \<le> now
                                          then activateNotice now notice st else st)
                         notices s1
              in s2\<lparr>timerWheel := (timerWheel s2)(currentTick s2 := None)\<rparr>))"

definition processScheduledNotices :: "int \<Rightarrow> NoticeScheduler \<Rightarrow> NoticeScheduler" where
  "processScheduledNotices now s =
     (let toActivate = filter (\<lambda>notice. visibleFrom notice \<le> now \<and> visibleUntil notice > now)
                         (dispatchQueue s)
      in fold (\<lambda>notice st. removeFromQueue notice (activateNotice now notice st)) toActivate s)"

subsection \<open>Runs of the scheduler\<close>

text \<open>
  The heap operations in any order, each \<open>scheduleNotice\<close> with the time of its call.
\<close>

datatype heap_op = Schedule int ScheduledNotice | GetNext

fun heap_step :: "heap_op \<Rightarrow> NoticeScheduler \<Rightarrow> NoticeScheduler" where
  "heap_step (Schedule now notice) s = scheduleNotice now notice s"
| "heap_step GetNext s = snd (getNextNotice s)"

lemma heapifyDown_length [simp]: "length (heapifyDown q index) = length q"
proof (induction q index rule: heapifyDown.induct)
  case (1 q index)
  show ?case
  proof (cases "smallest_of q index \<noteq> index")
    case True
    with 1 show ?thesis by (subst heapifyDown.simps) simp
  next
    case False
    then show ?thesis by (subst heapifyDown.simps) simp
  qed
qed

text \<open>What repeated calls of \<open>getNextNotice\<close> return, up to the first \<open>null\<close>.\<close>

function drain :: "NoticeScheduler \<Rightarrow> ScheduledNotice list" where
  "drain s =
     (case fst (getNextNotice s) of
        None \<Rightarrow> []
      | Some notice \<Rightarrow> notice # drain (snd (getNextNotice s)))"
  by pat_completeness auto

termination
proof (relation "measure (\<lambda>s. length (dispatchQueue s))")
  show "wf (measure (\<lambda>s. length (dispatchQueue s)))" by simp
next
  fix s :: NoticeScheduler and notice :: ScheduledNotice
  assume "fst (getNextNotice s) = Some notice"
  then have "dispatchQueue s \<noteq> []"
    by (auto simp: getNextNotice_def)
  then have "length (dispatchQueue (snd (getNextNotice s))) < length (dispatchQueue s)"
    by (simp add: getNextNotice_def Let_def)
  then show "(snd (getNextNotice s), s) \<in> measure (\<lambda>s. length (dispatchQueue s))"
    by simp
qed

declare drain.simps [simp del]

text \<open>
  \<open>setInterval(() => this.processTimerWheel(), 1000)\<close>: \<open>n\<close> ticks one second apart,
  the first at time \<open>now\<close>.
\<close>

fun run_ticks :: "int \<Rightarrow> nat \<Rightarrow> NoticeScheduler \<Rightarrow> NoticeScheduler" where
  "run_ticks now 0 s = s"
| "run_ticks now (Suc n) s = run_ticks (now + 1000) n (processTimerWheel now s)"

declare run_ticks.simps [simp del]

section \<open>Concrete scenarios of the lifecycle state machine\<close>

definition day_ms :: int where "day_ms = 1000 * 60 * 60 * 24"

definition ctx0 :: NoticeContext where
  "ctx0 = \<lparr>ctx_id = ''n1'', currentState = DRAFT, NoticeContext.createdAt = 0,
           NoticeContext.visibleFrom = None, NoticeContext.visibleUntil = None,
           NoticeContext.priority = 3, authorId = ''alice'', lastModifiedAt = 0\<rparr>"

text \<open>A fresh machine on which notice \<open>n1\<close> has been initialised.\<close>

definition machine0 :: NoticeStateMachine where
  "machine0 = initializeNotice ''t0'' 0 ''n1'' ctx0 new_NoticeStateMachine"

text \<open>Scenario C: \<open>n1\<close> is archived from DRAFT at time 1000, and reinstated 31 days later.\<close>

definition scenarioC_archived :: NoticeStateMachine where
  "scenarioC_archived =
     snd (projr (transition ''t1'' ''n1''
       \<lparr>TransitionInput.event = ARCHIVE, TransitionInput.timestamp = 1000,
        TransitionInput.userId = ''alice'', TransitionInput.userRole = ''publisher'',
        TransitionInput.metadata = None\<rparr> machine0))"

definition reinstate_by :: "string \<Rightarrow> TransitionInput" where
  "reinstate_by r =
     \<lparr>TransitionInput.event = REINSTATE, TransitionInput.timestamp = 1000 + 31 * day_ms,
      TransitionInput.userId = ''carol'', TransitionInput.userRole = r,
      TransitionInput.metadata = None\<rparr>"

section \<open>Concrete scenarios of the targeting index\<close>

definition example_hash :: "nat \<Rightarrow> string \<Rightarrow> nat" where
  "example_hash i key = (i + 1) * length key"

definition engUser :: UserAttributes where
  "engUser = \<lparr>userId = ''engUser'', role = ''user'', department = ''Eng'', location = ''HQ'',
              language = ''en'', deviceCapabilities = [], tags = []\<rparr>"

definition engAdmin :: UserAttributes where
  "engAdmin = \<lparr>userId = ''engAdmin'', role = ''admin'', department = ''Eng'', location = ''HQ'',
               language = ''en'', deviceCapabilities = [], tags = []\<rparr>"

definition two_users :: AudienceTargetingService where
  "two_users = registerUser engAdmin (registerUser engUser (new_AudienceTargetingService example_hash))"

definition rule_eng :: AudienceRule where
  "rule_eng = \<lparr>rule_id = ''r1'', expression = [], topics = [], departments = [''Eng''],
               roles = [], locations = [], tags = []\<rparr>"


section \<open>Concrete scenarios of the scheduler\<close>

text \<open>A notice for one target on the channel \<open>lobby\<close>.\<close>

definition mk_notice :: "string \<Rightarrow> NoticePriority \<Rightarrow> int \<Rightarrow> int \<Rightarrow> ScheduledNotice" where
  "mk_notice nid p vf vu =
     \<lparr>noticeId = nid, title = ''title'', content = ''content'', priority = p,
      visibleFrom = vf, visibleUntil = vu, targetAudience = [''u1''], channels = [''lobby''],
      createdAt = 0, retryCount = 0, maxRetries = 3\<rparr>"

text \<open>A scheduler whose \<open>lobby\<close> buffer already holds \<open>bufferSize\<close> notices.\<close>

definition full_lobby :: NoticeScheduler where
  "full_lobby =
     new_NoticeScheduler\<lparr>displayBuffers := [''lobby'' \<mapsto> replicate 100 (mk_notice ''n'' NORMAL 0 90)]\<rparr>"

text \<open>
  A notice whose window, from 1000 to 1200, is over when it is scheduled at time 1500,
  just after the first tick of the wheel; then the next 3599 ticks, one per second.
\<close>

definition expired_notice :: ScheduledNotice where
  "expired_notice = mk_notice ''old'' NORMAL 1000 1200"

definition late_state :: NoticeScheduler where
  "late_state =
     run_ticks 2000 3599
       (scheduleNotice 1500 expired_notice (run_ticks 1000 1 new_NoticeScheduler))"

text \<open>A queue of two pending notices with different ids.\<close>

definition two_pending :: NoticeScheduler where
  "two_pending =
     fold heap_step [Schedule 0 (mk_notice ''a'' NORMAL 10 90), Schedule 0 (mk_notice ''b'' LOW 200 900)]
       new_NoticeScheduler"

section \<open>Invariant of the Bloom filter\<close>

text \<open>The bit array has the length the filter was built with.\<close>

definition bf_inv :: "BloomFilter \<Rightarrow> bool" where
  "bf_inv bf \<longleftrightarrow> length (bf_filter bf) = bf_size bf \<and> 0 < bf_size bf"

section \<open>The order and the invariants of the dispatch queue\<close>

text \<open>
  \<open>ple a b\<close>: \<open>a\<close> may be returned before \<open>b\<close>, that is, the priority ordinal of
  \<open>a\<close> is smaller, or the priorities are equal and \<open>visibleFrom\<close> of \<open>a\<close> is not later.
\<close>

definition ple :: "ScheduledNotice \<Rightarrow> ScheduledNotice \<Rightarrow> bool" where
  "ple a b \<longleftrightarrow>
     priority_value (priority a) < priority_value (priority b)
     \<or> (priority a = priority b \<and> visibleFrom a \<le> visibleFrom b)"

text \<open>
  The array is a heap when no element comes before its parent. During \<open>heapifyUp\<close> the
  element at \<open>k\<close> may come before its parent; during \<open>heapifyDown\<close> the children of
  \<open>k\<close> may come before \<open>k\<close>. In both cases the parent of \<open>k\<close> still comes before the
  children of \<open>k\<close>.
\<close>

definition is_heap :: "ScheduledNotice list \<Rightarrow> bool" where
  "is_heap q \<longleftrightarrow> (\<forall>i < length q. 0 < i \<longrightarrow> ple (q ! ((i - 1) div 2)) (q ! i))"

definition heap_except_up :: "ScheduledNotice list \<Rightarrow> nat \<Rightarrow> bool" where
  "heap_except_up q k \<longleftrightarrow>
     (\<forall>i < length q. 0 < i \<and> i \<noteq> k \<longrightarrow> ple (q ! ((i - 1) div 2)) (q ! i)) \<and>
     (\<forall>i < length q. 0 < i \<and> (i - 1) div 2 = k \<and> 0 < k \<longrightarrow> ple (q ! ((k - 1) div 2)) (q ! i))"

definition heap_except_down :: "ScheduledNotice list \<Rightarrow> nat \<Rightarrow> bool" where
  "heap_except_down q k \<longleftrightarrow>
     (\<forall>i < length q. 0 < i \<and> (i - 1) div 2 \<noteq> k \<longrightarrow> ple (q ! ((i - 1) div 2)) (q ! i)) \<and>
     (\<forall>i < length q. 0 < i \<and> (i - 1) div 2 = k \<and> 0 < k \<longrightarrow> ple (q ! ((k - 1) div 2)) (q ! i))"

section \<open>Properties of the lifecycle state machine\<close>

lemma table_value:
  "initializeTransitionTable [] =
     [(DRAFT, [(SUBMIT, SUBMITTED), (UPDATE, DRAFT), (ARCHIVE, ARCHIVED)]),
      (SUBMITTED, [(APPROVE, MODERATION_PENDING), (REJECT, REJECTED), (UPDATE, DRAFT)]),
      (MODERATION_PENDING, [(APPROVE, APPROVED), (REJECT, REJECTED)]),
      (APPROVED, [(SCHEDULE, SCHEDULED), (ACTIVATE, ACTIVE), (REJECT, REJECTED)]),
      (SCHEDULED, [(ACTIVATE, ACTIVE), (REJECT, REJECTED)]),
      (ACTIVE, [(EXPIRE, EXPIRED), (ARCHIVE, ARCHIVED)]),
      (EXPIRED, [(ARCHIVE, ARCHIVED), (REINSTATE, REINSTATED)]),
      (ARCHIVED, [(REINSTATE, REINSTATED)]),
      (REINSTATED, [(APPROVE, APPROVED), (ARCHIVE, ARCHIVED)]),
      (REJECTED, [(REINSTATE, REINSTATED)])]"
  by (simp add: initializeTransitionTable_def addTransition_def)

lemma reach_value:
  "reach_loop (initializeTransitionTable []) [DRAFT] =
     [DRAFT, SUBMITTED, ARCHIVED, MODERATION_PENDING, REJECTED, APPROVED, SCHEDULED, ACTIVE,
      EXPIRED, REINSTATED]"
  by (simp add: table_value reach_loop.simps)

lemma validate_value:
  "validateFSM new_NoticeStateMachine = \<lparr>isValid = True, issues = []\<rparr>"
  by (simp add: validateFSM_def new_NoticeStateMachine_def reach_value NoticeState_values_def
      check_reachable_def) (simp add: table_value check_outgoing_def)

lemma next_new:
  "getNextState new_NoticeStateMachine st ev = map_get (case map_get (initializeTransitionTable []) st of None \<Rightarrow> [] | Some r \<Rightarrow> r) ev"
  by (simp add: getNextState_def new_NoticeStateMachine_def split: option.splits)

lemma edge_new:
  "getNextState new_NoticeStateMachine a ev = Some b \<Longrightarrow> (a, b) \<in> fsm_edges new_NoticeStateMachine"
  by (auto simp: fsm_edges_def)

lemma next_vals:
  "getNextState new_NoticeStateMachine DRAFT SUBMIT = Some SUBMITTED"
  "getNextState new_NoticeStateMachine DRAFT ARCHIVE = Some ARCHIVED"
  "getNextState new_NoticeStateMachine SUBMITTED APPROVE = Some MODERATION_PENDING"
  "getNextState new_NoticeStateMachine SUBMITTED REJECT = Some REJECTED"
  "getNextState new_NoticeStateMachine MODERATION_PENDING APPROVE = Some APPROVED"
  "getNextState new_NoticeStateMachine APPROVED SCHEDULE = Some SCHEDULED"
  "getNextState new_NoticeStateMachine APPROVED ACTIVATE = Some ACTIVE"
  "getNextState new_NoticeStateMachine ACTIVE EXPIRE = Some EXPIRED"
  "getNextState new_NoticeStateMachine ARCHIVED REINSTATE = Some REINSTATED"
  "getNextState new_NoticeStateMachine SCHEDULED ACTIVATE = Some ACTIVE"
  "getNextState new_NoticeStateMachine EXPIRED ARCHIVE = Some ARCHIVED"
  "getNextState new_NoticeStateMachine REINSTATED APPROVE = Some APPROVED"
  "getNextState new_NoticeStateMachine REJECTED REINSTATE = Some REINSTATED"
  by (simp_all add: next_new table_value)

lemma reach_all: "(DRAFT, st) \<in> (fsm_edges new_NoticeStateMachine)\<^sup>*"
proof -
  let ?E = "fsm_edges new_NoticeStateMachine"
  note e = next_vals [THEN edge_new]
  have d: "(DRAFT, DRAFT) \<in> ?E\<^sup>*" by simp
  have s: "(DRAFT, SUBMITTED) \<in> ?E\<^sup>*" using e(1) by blast
  have ar: "(DRAFT, ARCHIVED) \<in> ?E\<^sup>*" using e(2) by blast
  have mp: "(DRAFT, MODERATION_PENDING) \<in> ?E\<^sup>*" using s e(3) by (rule rtrancl_into_rtrancl)
  have rj: "(DRAFT, REJECTED) \<in> ?E\<^sup>*" using s e(4) by (rule rtrancl_into_rtrancl)
  have ap: "(DRAFT, APPROVED) \<in> ?E\<^sup>*" using mp e(5) by (rule rtrancl_into_rtrancl)
  have sc: "(DRAFT, SCHEDULED) \<in> ?E\<^sup>*" using ap e(6) by (rule rtrancl_into_rtrancl)
  have ac: "(DRAFT, ACTIVE) \<in> ?E\<^sup>*" using ap e(7) by (rule rtrancl_into_rtrancl)
  have ex: "(DRAFT, EXPIRED) \<in> ?E\<^sup>*" using ac e(8) by (rule rtrancl_into_rtrancl)
  have re: "(DRAFT, REINSTATED) \<in> ?E\<^sup>*" using ar e(9) by (rule rtrancl_into_rtrancl)
  show ?thesis by (cases st) (simp_all only: d s ar mp rj ap sc ac ex re)
qed

lemma outgoing_all: "\<exists>ev st'. getNextState new_NoticeStateMachine st ev = Some st'"
  by (cases st) (blast intro: next_vals)+

text \<open>
  Claim C10. \<open>validateFSM()\<close> on the table built by the constructor returns
  \<open>isValid = true\<close> with no issue: every state is reachable from DRAFT along the edges
  of the table, and every state, ARCHIVED and REJECTED included, has an outgoing
  transition.
\<close>

theorem validateFSM_constructed_table:
  "validateFSM new_NoticeStateMachine = \<lparr>isValid = True, issues = []\<rparr>
   \<and> (\<forall>st. (DRAFT, st) \<in> (fsm_edges new_NoticeStateMachine)\<^sup>*)
   \<and> (\<forall>st. \<exists>ev st'. getNextState new_NoticeStateMachine st ev = Some st')"
  using validate_value reach_all outgoing_all by blast

lemma mk_transition_sel [simp]:
  "StateTransition.isValid (mk_transition tid nid a b inp v r) = v"
  "StateTransition.reason (mk_transition tid nid a b inp v r) = r"
  "StateTransition.toState (mk_transition tid nid a b inp v r) = b"
  "StateTransition.fromState (mk_transition tid nid a b inp v r) = a"
  by (simp_all add: mk_transition_def)

text \<open>
  Claim C1. For an initialised notice, \<open>transition()\<close> returns a record and appends
  exactly that one record to the log. When the table has no entry for the current state
  and the event, or it has one and a guard rejects, the record has \<open>isValid = false\<close>
  and neither the current state nor the context changes; the state changes only with a
  record that has \<open>isValid = true\<close>.
\<close>

theorem transition_appends_one_record:
  assumes "noticeStates m nid = Some st" and "noticeContexts m nid = Some ctx"
  shows "\<exists>t m'. transition tid nid inp m = Inr (t, m')
           \<and> stateLog m' = stateLog m @ [t]
           \<and> (getNextState m st (TransitionInput.event inp) = None
                \<longrightarrow> \<not> StateTransition.isValid t
                  \<and> noticeStates m' = noticeStates m \<and> noticeContexts m' = noticeContexts m)
           \<and> (\<forall>ns. getNextState m st (TransitionInput.event inp) = Some ns
                    \<and> \<not> allowed (evaluateGuards st ns inp ctx)
                \<longrightarrow> \<not> StateTransition.isValid t
                  \<and> noticeStates m' = noticeStates m \<and> noticeContexts m' = noticeContexts m)
           \<and> (\<forall>ns. getNextState m st (TransitionInput.event inp) = Some ns
                    \<and> allowed (evaluateGuards st ns inp ctx)
                \<longrightarrow> StateTransition.isValid t \<and> StateTransition.toState t = ns
                  \<and> noticeStates m' = (noticeStates m)(nid \<mapsto> ns))
           \<and> (\<not> StateTransition.isValid t
                \<longrightarrow> noticeStates m' = noticeStates m \<and> noticeContexts m' = noticeContexts m)"
proof (cases "getNextState m st (TransitionInput.event inp)")
  case None
  with assms show ?thesis
    by (simp add: transition_def logTransition_def Let_def)
next
  case (Some ns)
  show ?thesis
  proof (cases "allowed (evaluateGuards st ns inp ctx)")
    case True
    with Some assms show ?thesis
      by (simp add: transition_def logTransition_def Let_def)
  next
    case False
    with Some assms show ?thesis
      by (simp add: transition_def logTransition_def Let_def)
  qed
qed

lemma machine0_state: "noticeStates machine0 ''n1'' = Some DRAFT"
  by (simp add: machine0_def initializeNotice_def logTransition_def)
lemma machine0_ctx: "noticeContexts machine0 ''n1'' = Some ctx0"
  by (simp add: machine0_def initializeNotice_def logTransition_def)

text \<open>Witness for C1: EXPIRE on the freshly initialised notice \<open>n1\<close>, which is in DRAFT.\<close>

theorem transition_appends_one_record_witness:
  "noticeStates machine0 ''n1'' = Some DRAFT \<and> noticeContexts machine0 ''n1'' = Some ctx0
   \<and> (\<exists>t m'. transition ''t1'' ''n1''
          \<lparr>TransitionInput.event = EXPIRE, TransitionInput.timestamp = 5, TransitionInput.userId = ''bob'',
      TransitionInput.userRole = ''admin'', TransitionInput.metadata = None\<rparr>
          machine0 = Inr (t, m')
        \<and> stateLog m' = stateLog machine0 @ [t]
        \<and> \<not> StateTransition.isValid t
        \<and> noticeStates m' = noticeStates machine0)"
proof -
  let ?inp = "\<lparr>TransitionInput.event = EXPIRE, TransitionInput.timestamp = 5, TransitionInput.userId = ''bob'',
      TransitionInput.userRole = ''admin'', TransitionInput.metadata = None\<rparr>"
  have n: "getNextState machine0 DRAFT (TransitionInput.event ?inp) = None"
    by (simp add: getNextState_def machine0_def initializeNotice_def logTransition_def
        new_NoticeStateMachine_def table_value)
  from transition_appends_one_record [OF machine0_state machine0_ctx, of "''t1''" ?inp] n
  show ?thesis using machine0_state machine0_ctx by auto
qed

text \<open>
  Claim C9, as amended. \<open>transition()\<close> on a notice id that was never initialised throws
  \<open>Error("Notice <id> not found")\<close>: the call returns no \<open>StateTransition\<close> and the
  exception leaves the method.
\<close>

theorem transition_unknown_id_throws:
  "noticeStates m nid = None \<Longrightarrow>
     transition tid nid inp m = Inl (Error (''Notice '' @ nid @ '' not found''))"
  by (simp add: transition_def)

text \<open>Witness for C9: the id \<open>ghost\<close> on a machine that only knows \<open>n1\<close>.\<close>

theorem transition_unknown_id_throws_witness:
  "noticeStates machine0 ''ghost'' = None \<and>
   transition ''t1'' ''ghost''
     \<lparr>TransitionInput.event = SUBMIT, TransitionInput.timestamp = 5, TransitionInput.userId = ''bob'',
      TransitionInput.userRole = ''admin'', TransitionInput.metadata = None\<rparr>
     machine0 = Inl (Error ''Notice ghost not found'')"
proof -
  have h: "noticeStates machine0 ''ghost'' = None"
    by (simp add: machine0_def initializeNotice_def logTransition_def new_NoticeStateMachine_def)
  from transition_unknown_id_throws [OF h] h show ?thesis by simp
qed

text \<open>
  Counterexample to C9 as stated: on a fresh machine the call with the unknown id
  \<open>ghost\<close> ends in the exception, not in a returned value.
\<close>

theorem transition_unknown_id_counterexample:
  "isl (transition ''t1'' ''ghost''
     \<lparr>TransitionInput.event = SUBMIT, TransitionInput.timestamp = 5, TransitionInput.userId = ''bob'',
      TransitionInput.userRole = ''admin'', TransitionInput.metadata = None\<rparr>
     new_NoticeStateMachine)"
  by (simp add: transition_def new_NoticeStateMachine_def)

subsection \<open>Reinstating an archived notice\<close>

text \<open>
  What \<open>transition()\<close> does for a notice in ARCHIVED whose \<open>lastModifiedAt\<close> is 31 days
  before the timestamp of a \<open>reinstate\<close>: a moderator is rejected by the role guard of
  \<open>reinstate\<close>, an admin succeeds.
\<close>

lemma reinstate_archived_after_31_days:
  assumes "getNextState m ARCHIVED REINSTATE = Some REINSTATED"
    and "noticeStates m nid = Some ARCHIVED"
    and "noticeContexts m nid = Some ctx"
    and "TransitionInput.event inp = REINSTATE"
    and "TransitionInput.timestamp inp = lastModifiedAt ctx + 31 * day_ms"
  shows "(TransitionInput.userRole inp = UserRole_MODERATOR \<longrightarrow>
           (\<exists>t m'. transition tid nid inp m = Inr (t, m')
              \<and> \<not> StateTransition.isValid t
              \<and> StateTransition.reason t = Some ''Only admins can reinstate notices''
              \<and> noticeStates m' nid = Some ARCHIVED))
       \<and> (TransitionInput.userRole inp = UserRole_ADMIN \<longrightarrow>
           (\<exists>t m'. transition tid nid inp m = Inr (t, m')
              \<and> StateTransition.isValid t
              \<and> StateTransition.toState t = REINSTATED
              \<and> noticeStates m' nid = Some REINSTATED))"
  using assms
  by (simp add: transition_def evaluateGuards_def Let_def logTransition_def
      UserRole_MODERATOR_def UserRole_ADMIN_def)

text \<open>
  With the table of the constructor, no call of \<open>transition()\<close> returns the reason of
  the 30-day guard: REINSTATED is reached from ARCHIVED by \<open>reinstate\<close> only, and the
  role guard of \<open>reinstate\<close> has returned for every actor who is not an admin before
  the 30-day guard is evaluated.
\<close>

lemma archived_row:
  "transitionTable m = initializeTransitionTable [] \<Longrightarrow>
     getNextState m ARCHIVED ev = Some REINSTATED \<Longrightarrow> ev = REINSTATE"
  by (simp add: getNextState_def table_value split: if_splits)

lemma guard_reason_30_days:
  assumes "GuardResult.reason (evaluateGuards fromSt toSt inp ctx) =
      Some ''Cannot reinstate notices archived for more than 30 days without admin privileges''"
  shows "fromSt = ARCHIVED \<and> toSt = REINSTATED \<and> TransitionInput.event inp \<noteq> REINSTATE"
  using assms by (simp add: evaluateGuards_def Let_def split: if_splits)

lemma thirty_day_guard_unreachable:
  assumes tbl: "transitionTable m = initializeTransitionTable []"
    and tr: "transition tid nid inp m = Inr (t, m')"
  shows "StateTransition.reason t \<noteq>
      Some ''Cannot reinstate notices archived for more than 30 days without admin privileges''"
proof
  assume r: "StateTransition.reason t =
      Some ''Cannot reinstate notices archived for more than 30 days without admin privileges''"
  from tr obtain st ctx where st: "noticeStates m nid = Some st" "noticeContexts m nid = Some ctx"
    by (auto simp: transition_def split: option.splits)
  show False
  proof (cases "getNextState m st (TransitionInput.event inp)")
    case None
    with tr st r show False
      by (auto simp: transition_def Let_def)
  next
    case (Some ns)
    with tr st r have "GuardResult.reason (evaluateGuards st ns inp ctx) =
        Some ''Cannot reinstate notices archived for more than 30 days without admin privileges''"
      by (auto simp: transition_def Let_def split: if_splits)
    from guard_reason_30_days [OF this] Some archived_row [OF tbl] show False by blast
  qed
qed

lemma scenarioC_facts:
  "getNextState scenarioC_archived ARCHIVED REINSTATE = Some REINSTATED"
  "noticeStates scenarioC_archived ''n1'' = Some ARCHIVED"
  "noticeContexts scenarioC_archived ''n1'' = Some (ctx0\<lparr>currentState := ARCHIVED, lastModifiedAt := 1000\<rparr>)"
  by (simp_all add: scenarioC_archived_def machine0_def initializeNotice_def logTransition_def
      new_NoticeStateMachine_def table_value transition_def getNextState_def Let_def
      evaluateGuards_def updateContextAfterTransition_def ctx0_def)

text \<open>
  Claim C5 fails on the code. In scenario C the notice \<open>n1\<close> is in ARCHIVED with
  \<open>lastModifiedAt\<close> 31 days before the \<open>reinstate\<close>. The moderator's call is rejected,
  but with the reason of the role guard and not with the reason of the 30-day guard; the
  admin's call succeeds and moves the notice to REINSTATED.
\<close>

theorem reinstate_archived_moderator_reason:
  "\<not> isl (transition ''t2'' ''n1'' (reinstate_by ''moderator'') scenarioC_archived)
   \<and> \<not> StateTransition.isValid
       (fst (projr (transition ''t2'' ''n1'' (reinstate_by ''moderator'') scenarioC_archived)))
   \<and> StateTransition.reason
       (fst (projr (transition ''t2'' ''n1'' (reinstate_by ''moderator'') scenarioC_archived)))
     = Some ''Only admins can reinstate notices''
   \<and> StateTransition.reason
       (fst (projr (transition ''t2'' ''n1'' (reinstate_by ''moderator'') scenarioC_archived)))
     \<noteq> Some ''Cannot reinstate notices archived for more than 30 days without admin privileges''
   \<and> StateTransition.toState
       (fst (projr (transition ''t2'' ''n1'' (reinstate_by ''admin'') scenarioC_archived)))
     = REINSTATED
   \<and> StateTransition.isValid
       (fst (projr (transition ''t2'' ''n1'' (reinstate_by ''admin'') scenarioC_archived)))"
  by (simp add: transition_def scenarioC_facts reinstate_by_def evaluateGuards_def Let_def
      UserRole_MODERATOR_def UserRole_ADMIN_def)


section \<open>Properties of the targeting index\<close>

subsection \<open>The Bloom filter\<close>

lemma set_bits_length: "length (fold (\<lambda>i bits. bits[i := True]) is bits) = length bits"
  by (induction "is" arbitrary: bits) simp_all

lemma set_bits_nth:
  "j < length bits \<Longrightarrow>
     fold (\<lambda>i bits. bits[i := True]) is bits ! j \<longleftrightarrow> bits ! j \<or> j \<in> set is"
proof (induction "is" arbitrary: bits)
  case Nil
  then show ?case by simp
next
  case (Cons i "is")
  from Cons.prems have len: "j < length (bits[i := True])" by simp
  have upd: "bits[i := True] ! j \<longleftrightarrow> bits ! j \<or> j = i"
    using Cons.prems by (cases "j = i") simp_all
  have "fold (\<lambda>i bits. bits[i := True]) (i # is) bits ! j
          \<longleftrightarrow> bits[i := True] ! j \<or> j \<in> set is"
    using Cons.IH [OF len] by simp
  with upd show ?case by auto
qed

lemma bf_indexes_add [simp]: "bf_indexes (bf_add key' bf) key = bf_indexes bf key"
  by (simp add: bf_indexes_def bf_add_def)

lemma bf_inv_new: "0 < m \<Longrightarrow> bf_inv (new_BloomFilter h m k)"
  by (simp add: bf_inv_def new_BloomFilter_def)

lemma bf_inv_add: "bf_inv bf \<Longrightarrow> bf_inv (bf_add key bf)"
  by (simp add: bf_inv_def bf_add_def set_bits_length)

lemma bf_indexes_bound: "bf_inv bf \<Longrightarrow> i \<in> set (bf_indexes bf key) \<Longrightarrow> i < length (bf_filter bf)"
  by (auto simp: bf_inv_def bf_indexes_def)

lemma bf_has_add_same: "bf_inv bf \<Longrightarrow> bf_has (bf_add key bf) key"
  using bf_indexes_bound [of bf _ key]
  by (auto simp: bf_has_def list_all_iff bf_add_def set_bits_length set_bits_nth bf_indexes_def)

lemma bf_has_add_other: "bf_has bf key \<Longrightarrow> bf_has (bf_add key' bf) key"
  by (auto simp: bf_has_def list_all_iff bf_add_def set_bits_length set_bits_nth bf_indexes_def)

lemma bloom_registerUser [simp]: "seenNoticesBloom (registerUser attrs svc) = seenNoticesBloom svc"
  by (simp add: registerUser_def Let_def split: option.splits)

lemma bloom_markNoticeSeen [simp]:
  "seenNoticesBloom (markNoticeSeen uid nid svc) = bf_add (seen_key uid nid) (seenNoticesBloom svc)"
  by (simp add: markNoticeSeen_def)

lemma bf_inv_step: "bf_inv (seenNoticesBloom svc) \<Longrightarrow> bf_inv (seenNoticesBloom (targeting_step op svc))"
  by (cases op) (simp_all add: bf_inv_add)

lemma bf_inv_run:
  "bf_inv (seenNoticesBloom svc) \<Longrightarrow> bf_inv (seenNoticesBloom (fold targeting_step ops svc))"
  by (induction ops arbitrary: svc) (simp_all add: bf_inv_step)

lemma seen_step:
  "hasUserSeenNotice svc u n \<Longrightarrow> hasUserSeenNotice (targeting_step op svc) u n"
  by (cases op) (simp_all add: hasUserSeenNotice_def bf_has_add_other)

lemma seen_run:
  "hasUserSeenNotice svc u n \<Longrightarrow> hasUserSeenNotice (fold targeting_step ops svc) u n"
  by (induction ops arbitrary: svc) (simp_all add: seen_step)

text \<open>
  Claim C4. On a service built by the constructor, after any registrations and marks,
  once \<open>markNoticeSeen(u, n)\<close> has been called, \<open>hasUserSeenNotice(u, n)\<close> returns true
  after any further registrations and marks, whatever the hash functions of the filter.
\<close>

theorem markNoticeSeen_no_false_negative:
  "hasUserSeenNotice
     (fold targeting_step later
        (markNoticeSeen u n (fold targeting_step earlier (new_AudienceTargetingService h))))
     u n"
proof -
  let ?s = "fold targeting_step earlier (new_AudienceTargetingService h)"
  have "bf_inv (seenNoticesBloom (new_AudienceTargetingService h))"
    by (simp add: new_AudienceTargetingService_def bf_inv_new)
  then have "bf_inv (seenNoticesBloom ?s)" by (rule bf_inv_run)
  then have "hasUserSeenNotice (markNoticeSeen u n ?s) u n"
    by (simp add: hasUserSeenNotice_def bf_has_add_same)
  then show ?thesis by (rule seen_run)
qed

text \<open>Witness for C4: two marks and a registration around the mark of \<open>(u1, n1)\<close>.\<close>

theorem markNoticeSeen_no_false_negative_witness:
  "hasUserSeenNotice
     (fold targeting_step [MarkSeen ''u2'' ''n2'']
        (markNoticeSeen ''u1'' ''n1''
           (fold targeting_step [Register engUser, MarkSeen ''u3'' ''n1'']
              (new_AudienceTargetingService example_hash))))
     ''u1'' ''n1''"
  by (rule markNoticeSeen_no_false_negative)

subsection \<open>Monotonicity of findEligibleUsers\<close>

lemma two_users_maps:
  "departmentBitmaps two_users = [''Eng'' \<mapsto> {2, 1}]"
  "roleBitmaps two_users = [''user'' \<mapsto> {1}, ''admin'' \<mapsto> {2}]"
  "locationBitmaps two_users = [''HQ'' \<mapsto> {2, 1}]"
  "numberToUserId two_users = [1 \<mapsto> ''engUser'', 2 \<mapsto> ''engAdmin'']"
  "userIdToNumber two_users = [(''engUser'', 1), (''engAdmin'', 2)]"
  by (simp_all add: two_users_def registerUser_def new_AudienceTargetingService_def engUser_def
      engAdmin_def Let_def ensureBitmap_def bitmap_add_def numeral_2_eq_2)


lemma bitmap_union_no_bitmap:
  "\<forall>v \<in> set vals. bm v = None \<Longrightarrow> bitmap_union receiver bm vals u = Inr u"
  by (induction vals) simp_all






text \<open>
  A listed value that a registered user has makes the call throw: \<open>departments = [Eng]\<close>
  ends in \<open>TypeError: deptUnion.or is not a function\<close>.
\<close>

lemma findEligibleUsers_listed_department_throws:
  "findEligibleUsers rule_eng two_users = Inl (TypeError ''deptUnion.or is not a function'')"
  by (simp add: findEligibleUsers_def eligibleBitmap_def after_locations_def after_roles_def
      after_departments_def rule_eng_def two_users_maps)



section \<open>Properties of the scheduler\<close>

subsection \<open>The dispatch queue is a heap\<close>

lemma priority_value_inj: "priority_value a = priority_value b \<longleftrightarrow> a = b"
  by (cases a; cases b) simp_all

lemma comparePriority_less: "comparePriority a b < 0 \<longleftrightarrow> \<not> ple b a"
  using priority_value_inj [of "priority a" "priority b"]
  by (auto simp: comparePriority_def ple_def)

lemma ple_total: "ple a b \<or> ple b a"
  using priority_value_inj [of "priority a" "priority b"]
  by (auto simp: ple_def)

lemma ple_trans: "ple a b \<Longrightarrow> ple b c \<Longrightarrow> ple a c"
  by (auto simp: ple_def)

lemma swap_nth:
  "a < length q \<Longrightarrow> b < length q \<Longrightarrow> x < length q \<Longrightarrow>
     q[a := q ! b, b := q ! a] ! x = (if x = b then q ! a else if x = a then q ! b else q ! x)"
  by (simp add: nth_list_update)

lemma mset_heapifyUp: "k < length q \<Longrightarrow> mset (heapifyUp q k) = mset q"
proof (induction q k rule: heapifyUp.induct)
  case (1 q k)
  show ?case
  proof (cases "k \<noteq> 0 \<and> comparePriority (q ! k) (q ! ((k - 1) div 2)) < 0")
    case True
    let ?p = "(k - 1) div 2"
    from True 1(2) have p: "?p < length q" by simp
    have "mset (heapifyUp q k) = mset (heapifyUp (q[k := q ! ?p, ?p := q ! k]) ?p)"
      using True by (subst heapifyUp.simps) simp
    also have "\<dots> = mset (q[k := q ! ?p, ?p := q ! k])"
      using True p 1(1) by simp
    also have "\<dots> = mset q"
      using p 1(2) by (simp add: mset_swap)
    finally show ?thesis .
  next
    case False
    then show ?thesis by (subst heapifyUp.simps) auto
  qed
qed

lemma mset_heapifyDown: "mset (heapifyDown q k) = mset q"
proof (induction q k rule: heapifyDown.induct)
  case (1 q k)
  show ?case
  proof (cases "smallest_of q k \<noteq> k")
    case True
    let ?s = "smallest_of q k"
    from True have b: "k < ?s \<and> ?s < length q" by (rule smallest_of_bounds)
    have "mset (heapifyDown q k) = mset (heapifyDown (q[k := q ! ?s, ?s := q ! k]) ?s)"
      using True by (subst heapifyDown.simps) simp
    also have "\<dots> = mset (q[k := q ! ?s, ?s := q ! k])"
      using True 1 by simp
    also have "\<dots> = mset q"
      using b by (simp add: mset_swap)
    finally show ?thesis .
  next
    case False
    then show ?thesis by (subst heapifyDown.simps) simp
  qed
qed

lemma is_heap_from_up:
  assumes "heap_except_up q k" and "k = 0 \<or> ple (q ! ((k - 1) div 2)) (q ! k)"
  shows "is_heap q"
  unfolding is_heap_def
proof (intro allI impI)
  fix i assume i: "i < length q" "0 < i"
  show "ple (q ! ((i - 1) div 2)) (q ! i)"
  proof (cases "i = k")
    case True
    with assms(2) i show ?thesis by auto
  next
    case False
    with assms(1) i show ?thesis by (simp add: heap_except_up_def)
  qed
qed

lemma swap_up:
  assumes k: "0 < k" "k < length q"
    and h: "heap_except_up q k"
    and lt: "\<not> ple (q ! ((k - 1) div 2)) (q ! k)"
  shows "heap_except_up (q[k := q ! ((k - 1) div 2), (k - 1) div 2 := q ! k]) ((k - 1) div 2)"
proof -
  let ?p = "(k - 1) div 2"
  let ?q' = "q[k := q ! ?p, ?p := q ! k]"
  from k have p: "?p < k" "?p < length q" by simp_all
  have nth': "?q' ! x = (if x = ?p then q ! k else if x = k then q ! ?p else q ! x)"
    if "x < length q" for x
    using swap_nth [OF k(2) p(2) that] .
  from h have c1: "ple (q ! ((i - 1) div 2)) (q ! i)" if "i < length q" "0 < i" "i \<noteq> k" for i
    using that by (simp add: heap_except_up_def)
  from h k have c2: "ple (q ! ((k - 1) div 2)) (q ! i)" if "i < length q" "0 < i" "(i - 1) div 2 = k" for i
    using that by (simp add: heap_except_up_def)
  from lt have kp: "ple (q ! k) (q ! ?p)" using ple_total by blast
  have g1: "ple (?q' ! ((i - 1) div 2)) (?q' ! i)" if i: "i < length q" "0 < i" "i \<noteq> ?p" for i
  proof -
    from i have pi: "(i - 1) div 2 < length q" "(i - 1) div 2 < i" by simp_all
    show ?thesis
    proof (cases "i = k")
      case True
      with kp p i show ?thesis by (simp add: nth')
    next
      case ik: False
      have qi: "?q' ! i = q ! i" using i ik by (simp add: nth')
      consider "(i - 1) div 2 = k" | "(i - 1) div 2 = ?p" | "(i - 1) div 2 \<noteq> k" "(i - 1) div 2 \<noteq> ?p"
        by blast
      then show ?thesis
      proof cases
        case 1
        then have "?q' ! ((i - 1) div 2) = q ! ?p" using k p by (simp add: nth')
        with c2 [OF i(1) i(2) 1] qi show ?thesis by simp
      next
        case 2
        then have "?q' ! ((i - 1) div 2) = q ! k" using p by (simp add: nth')
        moreover have "ple (q ! ?p) (q ! i)" using c1 [OF i(1) i(2) ik] 2 by simp
        ultimately show ?thesis using kp qi ple_trans by metis
      next
        case 3
        then have "?q' ! ((i - 1) div 2) = q ! ((i - 1) div 2)" using pi by (simp add: nth')
        with c1 [OF i(1) i(2) ik] qi show ?thesis by simp
      qed
    qed
  qed
  have g2: "ple (?q' ! ((?p - 1) div 2)) (?q' ! i)"
    if i: "i < length q" "0 < i" "(i - 1) div 2 = ?p" "0 < ?p" for i
  proof -
    from i p have pp: "(?p - 1) div 2 < ?p" "(?p - 1) div 2 < length q" by arith+
    then have "(?p - 1) div 2 \<noteq> k" using p by simp
    with pp have gp: "?q' ! ((?p - 1) div 2) = q ! ((?p - 1) div 2)" by (simp add: nth')
    have ppp: "ple (q ! ((?p - 1) div 2)) (q ! ?p)" using c1 [of ?p] p i(4) by simp
    from i have ip: "i \<noteq> ?p" by auto
    show ?thesis
    proof (cases "i = k")
      case True
      with p have "?q' ! i = q ! ?p" using i by (simp add: nth')
      with gp ppp show ?thesis by simp
    next
      case False
      with ip i have "?q' ! i = q ! i" by (simp add: nth')
      moreover have "ple (q ! ?p) (q ! i)" using c1 [OF i(1) i(2) False] i(3) by simp
      ultimately show ?thesis using gp ppp ple_trans by metis
    qed
  qed
  show ?thesis
    unfolding heap_except_up_def
  proof (intro conjI allI impI)
    fix i assume "i < length ?q'" and "0 < i \<and> i \<noteq> ?p"
    then have "i < length q" "0 < i" "i \<noteq> ?p" by simp_all
    then show "ple (?q' ! ((i - 1) div 2)) (?q' ! i)" by (rule g1)
  next
    fix i assume "i < length ?q'" and "0 < i \<and> (i - 1) div 2 = ?p \<and> 0 < ?p"
    then have "i < length q" "0 < i" "(i - 1) div 2 = ?p" "0 < ?p" by simp_all
    then show "ple (?q' ! ((?p - 1) div 2)) (?q' ! i)" by (rule g2)
  qed
qed

lemma heapifyUp_heap: "k < length q \<Longrightarrow> heap_except_up q k \<Longrightarrow> is_heap (heapifyUp q k)"
proof (induction q k rule: heapifyUp.induct)
  case (1 q k)
  let ?p = "(k - 1) div 2"
  show ?case
  proof (cases "k \<noteq> 0 \<and> comparePriority (q ! k) (q ! ?p) < 0")
    case True
    then have k: "0 < k" and lt: "\<not> ple (q ! ?p) (q ! k)"
      by (simp_all add: comparePriority_less)
    have ex: "heap_except_up (q[k := q ! ?p, ?p := q ! k]) ?p"
      using swap_up [OF k "1.prems"(1) "1.prems"(2) lt] .
    have "?p < length (q[k := q ! ?p, ?p := q ! k])" using k "1.prems"(1) by simp
    then have "is_heap (heapifyUp (q[k := q ! ?p, ?p := q ! k]) ?p)"
      using "1.IH" True ex by simp
    moreover have "heapifyUp q k = heapifyUp (q[k := q ! ?p, ?p := q ! k]) ?p"
      using True by (subst heapifyUp.simps) simp
    ultimately show ?thesis by simp
  next
    case False
    then have stop: "k = 0 \<or> ple (q ! ?p) (q ! k)"
      by (auto simp: comparePriority_less)
    have "heapifyUp q k = q" using False by (subst heapifyUp.simps) auto
    with is_heap_from_up [OF "1.prems"(2) stop] show ?thesis by simp
  qed
qed

lemma heap_append: "is_heap q \<Longrightarrow> heap_except_up (q @ [x]) (length q)"
  unfolding is_heap_def heap_except_up_def
proof (intro conjI allI impI)
  fix i assume h: "\<forall>i<length q. 0 < i \<longrightarrow> ple (q ! ((i - 1) div 2)) (q ! i)"
    and i: "i < length (q @ [x])" "0 < i \<and> i \<noteq> length q"
  then have "i < length q" by simp
  moreover then have "(i - 1) div 2 < length q" by simp
  ultimately show "ple ((q @ [x]) ! ((i - 1) div 2)) ((q @ [x]) ! i)"
    using h i by (simp add: nth_append)
next
  fix i assume i: "i < length (q @ [x])" "0 < i \<and> (i - 1) div 2 = length q \<and> 0 < length q"
  then have "(i - 1) div 2 < i" by arith
  with i have False by simp
  then show "ple ((q @ [x]) ! ((length q - 1) div 2)) ((q @ [x]) ! i)" ..
qed

lemma is_heap_insert:
  "is_heap (dispatchQueue s) \<Longrightarrow> is_heap (dispatchQueue (insertIntoPriorityQueue notice s))"
  by (simp add: insertIntoPriorityQueue_def heapifyUp_heap heap_append)

lemma ple_refl: "ple a a"
  using ple_total by blast

lemma smallest_of_range:
  "smallest_of q k = k \<or> smallest_of q k = 2 * k + 1 \<or> smallest_of q k = 2 * k + 2"
  by (simp add: smallest_of_def Let_def)

lemma smallest_of_strict:
  assumes "smallest_of q k \<noteq> k"
  shows "\<not> ple (q ! k) (q ! smallest_of q k)"
proof -
  let ?l = "2 * k + 1" and ?r = "2 * k + 2"
  show ?thesis
  proof (cases "?l < length q \<and> comparePriority (q ! ?l) (q ! k) < 0")
    case l: True
    then have lk: "\<not> ple (q ! k) (q ! ?l)" by (simp add: comparePriority_less)
    show ?thesis
    proof (cases "?r < length q \<and> comparePriority (q ! ?r) (q ! ?l) < 0")
      case True
      then have s: "smallest_of q k = ?r" using l by (simp add: smallest_of_def Let_def)
      from True have "\<not> ple (q ! ?l) (q ! ?r)" by (simp add: comparePriority_less)
      then have "ple (q ! ?r) (q ! ?l)" using ple_total by blast
      with lk have "\<not> ple (q ! k) (q ! ?r)" using ple_trans by blast
      with s show ?thesis by simp
    next
      case False
      then have "smallest_of q k = ?l" using l by (auto simp: smallest_of_def Let_def)
      with lk show ?thesis by simp
    qed
  next
    case l: False
    show ?thesis
    proof (cases "?r < length q \<and> comparePriority (q ! ?r) (q ! k) < 0")
      case True
      then have s: "smallest_of q k = ?r" using l by (auto simp: smallest_of_def Let_def)
      from True have "\<not> ple (q ! k) (q ! ?r)" by (simp add: comparePriority_less)
      with s show ?thesis by simp
    next
      case False
      then have "smallest_of q k = k" using l by (auto simp: smallest_of_def Let_def)
      with assms show ?thesis by simp
    qed
  qed
qed

lemma smallest_of_least:
  assumes "c = 2 * k + 1 \<or> c = 2 * k + 2" and "c < length q"
  shows "ple (q ! smallest_of q k) (q ! c)"
proof -
  let ?l = "2 * k + 1" and ?r = "2 * k + 2"
  from assms have llen: "?l < length q" by auto
  show ?thesis
  proof (cases "comparePriority (q ! ?l) (q ! k) < 0")
    case l: True
    then have lk: "ple (q ! ?l) (q ! k)" using ple_total by (auto simp: comparePriority_less)
    show ?thesis
    proof (cases "?r < length q \<and> comparePriority (q ! ?r) (q ! ?l) < 0")
      case True
      then have s: "smallest_of q k = ?r" using l llen by (simp add: smallest_of_def Let_def)
      from True have "ple (q ! ?r) (q ! ?l)" using ple_total by (auto simp: comparePriority_less)
      with s assms(1) show ?thesis using ple_refl by auto
    next
      case False
      then have s: "smallest_of q k = ?l" using l llen by (auto simp: smallest_of_def Let_def)
      from False have "?r < length q \<longrightarrow> ple (q ! ?l) (q ! ?r)"
        by (auto simp: comparePriority_less)
      with s assms show ?thesis using ple_refl by auto
    qed
  next
    case l: False
    then have kl: "ple (q ! k) (q ! ?l)" by (simp add: comparePriority_less)
    show ?thesis
    proof (cases "?r < length q \<and> comparePriority (q ! ?r) (q ! k) < 0")
      case True
      then have s: "smallest_of q k = ?r" using l by (auto simp: smallest_of_def Let_def)
      from True have "ple (q ! ?r) (q ! k)" using ple_total by (auto simp: comparePriority_less)
      with kl have "ple (q ! ?r) (q ! ?l)" using ple_trans by blast
      with s assms(1) show ?thesis using ple_refl by auto
    next
      case False
      then have s: "smallest_of q k = k" using l by (auto simp: smallest_of_def Let_def)
      from False have "?r < length q \<longrightarrow> ple (q ! k) (q ! ?r)"
        by (auto simp: comparePriority_less)
      with s kl assms show ?thesis by auto
    qed
  qed
qed

lemma child_cases:
  "0 < (i::nat) \<Longrightarrow> (i - 1) div 2 = k \<Longrightarrow> i = 2 * k + 1 \<or> i = 2 * k + 2"
  by arith

lemma is_heap_from_down:
  assumes "heap_except_down q k" and "smallest_of q k = k"
  shows "is_heap q"
  unfolding is_heap_def
proof (intro allI impI)
  fix i assume i: "i < length q" "0 < i"
  show "ple (q ! ((i - 1) div 2)) (q ! i)"
  proof (cases "(i - 1) div 2 = k")
    case True
    with i have "i = 2 * k + 1 \<or> i = 2 * k + 2" by (intro child_cases)
    from smallest_of_least [OF this i(1)] assms(2) True show ?thesis by simp
  next
    case False
    with assms(1) i show ?thesis by (simp add: heap_except_down_def)
  qed
qed

lemma swap_down:
  assumes h: "heap_except_down q k" and ne: "smallest_of q k \<noteq> k"
  shows "heap_except_down (q[k := q ! smallest_of q k, smallest_of q k := q ! k]) (smallest_of q k)"
proof -
  let ?s = "smallest_of q k"
  let ?q' = "q[k := q ! ?s, ?s := q ! k]"
  from ne have b: "k < ?s" "?s < length q" using smallest_of_bounds by blast+
  then have klen: "k < length q" by simp
  from ne smallest_of_range [of q k] have sc: "?s = 2 * k + 1 \<or> ?s = 2 * k + 2" by blast
  then have ps: "(?s - 1) div 2 = k" by arith
  have nth': "?q' ! x = (if x = ?s then q ! k else if x = k then q ! ?s else q ! x)"
    if "x < length q" for x
    using swap_nth [OF klen b(2) that] .
  from h have c1: "ple (q ! ((i - 1) div 2)) (q ! i)"
    if "i < length q" "0 < i" "(i - 1) div 2 \<noteq> k" for i
    using that by (simp add: heap_except_down_def)
  from h have c2: "ple (q ! ((k - 1) div 2)) (q ! i)"
    if "i < length q" "0 < i" "(i - 1) div 2 = k" "0 < k" for i
    using that by (simp add: heap_except_down_def)
  from smallest_of_strict [OF ne] have sk: "ple (q ! ?s) (q ! k)" using ple_total by blast
  have g1: "ple (?q' ! ((i - 1) div 2)) (?q' ! i)"
    if i: "i < length q" "0 < i" "(i - 1) div 2 \<noteq> ?s" for i
  proof -
    from i have pi: "(i - 1) div 2 < length q" "(i - 1) div 2 < i" by arith+
    consider "i = k" | "i = ?s" | "i \<noteq> k" "i \<noteq> ?s" by blast
    then show ?thesis
    proof cases
      case 1
      with i b have "(k - 1) div 2 \<noteq> ?s" "(k - 1) div 2 \<noteq> k" "(k - 1) div 2 < length q"
        by arith+
      then have "?q' ! ((k - 1) div 2) = q ! ((k - 1) div 2)" by (simp add: nth')
      moreover have "?q' ! k = q ! ?s" using klen b by (simp add: nth')
      moreover have "ple (q ! ((k - 1) div 2)) (q ! ?s)" using c2 [OF b(2) _ ps] b 1 i by simp
      ultimately show ?thesis using 1 by simp
    next
      case 2
      then have "?q' ! ((i - 1) div 2) = q ! ?s" using ps klen b by (simp add: nth')
      moreover have "?q' ! i = q ! k" using 2 b by (simp add: nth')
      ultimately show ?thesis using sk by simp
    next
      case 3
      then have qi: "?q' ! i = q ! i" using i by (simp add: nth')
      show ?thesis
      proof (cases "(i - 1) div 2 = k")
        case True
        with i have "i = 2 * k + 1 \<or> i = 2 * k + 2" by (intro child_cases)
        from smallest_of_least [OF this i(1)] have "ple (q ! ?s) (q ! i)" .
        moreover have "?q' ! ((i - 1) div 2) = q ! ?s" using True klen b by (simp add: nth')
        ultimately show ?thesis using qi by simp
      next
        case False
        with i pi have "?q' ! ((i - 1) div 2) = q ! ((i - 1) div 2)" by (simp add: nth')
        with c1 [OF i(1) i(2) False] qi show ?thesis by simp
      qed
    qed
  qed
  have g2: "ple (?q' ! ((?s - 1) div 2)) (?q' ! i)"
    if i: "i < length q" "0 < i" "(i - 1) div 2 = ?s" for i
  proof -
    from i b have "i \<noteq> k" "i \<noteq> ?s" by arith+
    then have "?q' ! i = q ! i" using i by (simp add: nth')
    moreover have "?q' ! ((?s - 1) div 2) = q ! ?s" using ps klen b by (simp add: nth')
    moreover have "ple (q ! ?s) (q ! i)" using c1 [OF i(1) i(2)] i(3) b by simp
    ultimately show ?thesis by simp
  qed
  show ?thesis
    unfolding heap_except_down_def
  proof (intro conjI allI impI)
    fix i assume "i < length ?q'" and "0 < i \<and> (i - 1) div 2 \<noteq> ?s"
    then have "i < length q" "0 < i" "(i - 1) div 2 \<noteq> ?s" by simp_all
    then show "ple (?q' ! ((i - 1) div 2)) (?q' ! i)" by (rule g1)
  next
    fix i assume "i < length ?q'" and "0 < i \<and> (i - 1) div 2 = ?s \<and> 0 < ?s"
    then have "i < length q" "0 < i" "(i - 1) div 2 = ?s" by simp_all
    then show "ple (?q' ! ((?s - 1) div 2)) (?q' ! i)" by (rule g2)
  qed
qed

lemma heapifyDown_heap: "heap_except_down q k \<Longrightarrow> is_heap (heapifyDown q k)"
proof (induction q k rule: heapifyDown.induct)
  case (1 q k)
  let ?s = "smallest_of q k"
  show ?case
  proof (cases "?s \<noteq> k")
    case True
    have "heap_except_down (q[k := q ! ?s, ?s := q ! k]) ?s"
      using swap_down [OF "1.prems" True] .
    then have "is_heap (heapifyDown (q[k := q ! ?s, ?s := q ! k]) ?s)"
      using "1.IH" True by simp
    moreover have "heapifyDown q k = heapifyDown (q[k := q ! ?s, ?s := q ! k]) ?s"
      using True by (subst heapifyDown.simps) simp
    ultimately show ?thesis by simp
  next
    case False
    then have "heapifyDown q k = q" by (subst heapifyDown.simps) simp
    with is_heap_from_down [OF "1.prems"] False show ?thesis by simp
  qed
qed

lemma is_heap_Nil: "is_heap []"
  by (simp add: is_heap_def)

lemma is_heap_butlast: "is_heap q \<Longrightarrow> is_heap (butlast q)"
  unfolding is_heap_def
proof (intro allI impI)
  fix i assume h: "\<forall>i<length q. 0 < i \<longrightarrow> ple (q ! ((i - 1) div 2)) (q ! i)"
    and i: "i < length (butlast q)" "0 < i"
  then have "i < length q" "(i - 1) div 2 < length (butlast q)" by simp_all
  with h i show "ple (butlast q ! ((i - 1) div 2)) (butlast q ! i)"
    by (simp add: nth_butlast)
qed

lemma heap_replace_root: "is_heap q \<Longrightarrow> heap_except_down (q[0 := x]) 0"
  unfolding is_heap_def heap_except_down_def
proof (intro conjI allI impI)
  fix i assume h: "\<forall>i<length q. 0 < i \<longrightarrow> ple (q ! ((i - 1) div 2)) (q ! i)"
    and i: "i < length (q[0 := x])" "0 < i \<and> (i - 1) div 2 \<noteq> 0"
  then have "ple (q ! ((i - 1) div 2)) (q ! i)" by simp
  with i show "ple (q[0 := x] ! ((i - 1) div 2)) (q[0 := x] ! i)" by simp
next
  fix i :: nat assume "0 < i \<and> (i - 1) div 2 = 0 \<and> (0::nat) < 0"
  then show "ple (q[0 := x] ! ((0 - 1) div 2)) (q[0 := x] ! i)" by simp
qed

lemma butlast_nonempty: "butlast q \<noteq> [] \<longleftrightarrow> Suc 0 < length q"
  by (cases q) auto

lemma getNextNotice_queue_many:
  "butlast (dispatchQueue s) \<noteq> [] \<Longrightarrow>
     dispatchQueue (snd (getNextNotice s)) =
       heapifyDown ((butlast (dispatchQueue s))[0 := last (dispatchQueue s)]) 0"
  by (auto simp: getNextNotice_def Let_def butlast_nonempty)

lemma getNextNotice_queue_one:
  "butlast (dispatchQueue s) = [] \<Longrightarrow> dispatchQueue (snd (getNextNotice s)) = []"
  by (cases "dispatchQueue s = []") (auto simp: getNextNotice_def Let_def)

lemma is_heap_getNextNotice:
  assumes "is_heap (dispatchQueue s)"
  shows "is_heap (dispatchQueue (snd (getNextNotice s)))"
proof (cases "butlast (dispatchQueue s) = []")
  case True
  then show ?thesis by (simp add: getNextNotice_queue_one is_heap_Nil)
next
  case False
  let ?q1 = "butlast (dispatchQueue s)"
  have h1: "is_heap ?q1" using assms by (rule is_heap_butlast)
  have "is_heap (heapifyDown (?q1[0 := last (dispatchQueue s)]) 0)"
    using heap_replace_root [OF h1] by (rule heapifyDown_heap)
  then show ?thesis by (simp only: getNextNotice_queue_many [OF False])
qed

lemma mset_remove_at:
  assumes "q \<noteq> []" and "i < length q"
  shows "mset (if i < length (butlast q) then (butlast q)[i := last q] else butlast q)
           = mset q - {#q ! i#}"
proof (cases "i < length (butlast q)")
  case True
  have q: "q = butlast q @ [last q]" using assms(1) by simp
  have "mset ((butlast q)[i := last q]) = add_mset (last q) (mset (butlast q) - {#butlast q ! i#})"
    using True by (rule mset_update)
  also have "butlast q ! i = q ! i" using True by (simp add: nth_butlast)
  also have "add_mset (last q) (mset (butlast q) - {#q ! i#})
               = add_mset (last q) (mset (butlast q)) - {#q ! i#}"
  proof -
    have "q ! i \<in># mset (butlast q)"
      using True nth_mem [of i "butlast q"] by (simp add: nth_butlast)
    then show ?thesis by simp
  qed
  also have "add_mset (last q) (mset (butlast q)) = mset q"
    using q by (metis mset.simps(2) mset_append union_mset_add_mset_right add.right_neutral mset.simps(1))
  finally show ?thesis using True by simp
next
  case False
  with assms have i: "i = length q - 1" by simp
  then have "q ! i = last q" using assms(1) by (simp add: last_conv_nth)
  moreover have "mset q = add_mset (last q) (mset (butlast q))"
    using assms(1) by (metis append_butlast_last_id mset.simps(1) mset.simps(2) mset_append
        union_mset_add_mset_right add.right_neutral)
  ultimately show ?thesis using False by simp
qed

lemma getNextNotice_empty: "dispatchQueue s = [] \<Longrightarrow> fst (getNextNotice s) = None"
  by (simp add: getNextNotice_def)

lemma getNextNotice_nonempty:
  assumes "dispatchQueue s \<noteq> []"
  shows "fst (getNextNotice s) = Some (dispatchQueue s ! 0)"
    and "mset (dispatchQueue (snd (getNextNotice s))) = mset (dispatchQueue s) - {#dispatchQueue s ! 0#}"
proof -
  show "fst (getNextNotice s) = Some (dispatchQueue s ! 0)"
    using assms by (simp add: getNextNotice_def Let_def)
  let ?q1 = "butlast (dispatchQueue s)"
  have "0 < length (dispatchQueue s)" using assms by simp
  note rm = mset_remove_at [OF assms this]
  show "mset (dispatchQueue (snd (getNextNotice s))) = mset (dispatchQueue s) - {#dispatchQueue s ! 0#}"
  proof (cases "?q1 = []")
    case False
    then have len: "0 < length ?q1" by (simp add: butlast_nonempty)
    have "mset (dispatchQueue (snd (getNextNotice s))) = mset (?q1[0 := last (dispatchQueue s)])"
      by (simp only: getNextNotice_queue_many [OF False] mset_heapifyDown)
    also have "\<dots> = mset (dispatchQueue s) - {#dispatchQueue s ! 0#}"
      using rm len by (simp only: if_True)
    finally show ?thesis .
  next
    case True
    then have len: "\<not> 0 < length ?q1" by (simp add: butlast_nonempty)
    have "mset (dispatchQueue (snd (getNextNotice s))) = mset ?q1"
      by (simp only: getNextNotice_queue_one [OF True] True)
    also have "\<dots> = mset (dispatchQueue s) - {#dispatchQueue s ! 0#}"
      using rm len by (simp only: if_False)
    finally show ?thesis .
  qed
qed

lemma heap_root_least: "is_heap q \<Longrightarrow> i < length q \<Longrightarrow> ple (q ! 0) (q ! i)"
proof (induction i rule: less_induct)
  case (less i)
  show ?case
  proof (cases "i = 0")
    case True
    then show ?thesis by (simp add: ple_refl)
  next
    case False
    then have p: "(i - 1) div 2 < i" by arith
    with less.prems have "(i - 1) div 2 < length q" by simp
    with less.IH [OF p less.prems(1)] have "ple (q ! 0) (q ! ((i - 1) div 2))" .
    moreover have "ple (q ! ((i - 1) div 2)) (q ! i)"
      using less.prems False by (simp add: is_heap_def)
    ultimately show ?thesis by (rule ple_trans)
  qed
qed

lemma drain_heap:
  "is_heap (dispatchQueue s) \<Longrightarrow>
     sorted_wrt ple (drain s) \<and> mset (drain s) = mset (dispatchQueue s)"
proof (induction s rule: drain.induct)
  case (1 s)
  show ?case
  proof (cases "dispatchQueue s = []")
    case True
    then have "drain s = []"
      by (subst drain.simps) (simp add: getNextNotice_empty)
    with True show ?thesis by simp
  next
    case False
    let ?n = "dispatchQueue s ! 0"
    let ?s' = "snd (getNextNotice s)"
    note nx = getNextNotice_nonempty [OF False]
    have d: "drain s = ?n # drain ?s'"
      by (subst drain.simps) (simp add: nx(1))
    have h': "is_heap (dispatchQueue ?s')" using "1.prems" by (rule is_heap_getNextNotice)
    from "1.IH" [OF nx(1) h']
    have ih: "sorted_wrt ple (drain ?s')" "mset (drain ?s') = mset (dispatchQueue ?s')" by simp_all
    have n_in: "?n \<in># mset (dispatchQueue s)" using False by simp
    have least: "ple ?n x" if "x \<in> set (drain ?s')" for x
    proof -
      from that have "x \<in># mset (drain ?s')" by simp
      then have "x \<in># mset (dispatchQueue s) - {#?n#}" by (simp only: ih(2) nx(2))
      then have "x \<in> set (dispatchQueue s)" by (meson in_diffD in_multiset_in_set)
      then obtain i where "i < length (dispatchQueue s)" "dispatchQueue s ! i = x"
        by (auto simp: in_set_conv_nth)
      with heap_root_least [OF "1.prems"] show ?thesis by blast
    qed
    have "mset (drain s) = add_mset ?n (mset (dispatchQueue s) - {#?n#})"
      by (simp add: d ih(2) nx(2))
    also have "\<dots> = mset (dispatchQueue s)" using n_in by simp
    finally have m: "mset (drain s) = mset (dispatchQueue s)" .
    from least ih(1) have "sorted_wrt ple (drain s)" by (simp add: d)
    with m show ?thesis by simp
  qed
qed

lemma dispatchQueue_scheduleNotice:
  "dispatchQueue (scheduleNotice now notice s) = dispatchQueue (insertIntoPriorityQueue notice s)"
  by (simp add: scheduleNotice_def addToTimingWheel_def Let_def)

lemma is_heap_step: "is_heap (dispatchQueue s) \<Longrightarrow> is_heap (dispatchQueue (heap_step op s))"
  by (cases op) (simp_all add: dispatchQueue_scheduleNotice is_heap_insert is_heap_getNextNotice)

lemma is_heap_run: "is_heap (dispatchQueue s) \<Longrightarrow> is_heap (dispatchQueue (fold heap_step ops s))"
  by (induction ops arbitrary: s) (simp_all add: is_heap_step)

lemma is_heap_new: "is_heap (dispatchQueue new_NoticeScheduler)"
  by (simp add: is_heap_def new_NoticeScheduler_def)

text \<open>
  Claim C2. After any sequence of \<open>scheduleNotice\<close> and \<open>getNextNotice\<close> calls on a
  new scheduler, the notices returned by repeated \<open>getNextNotice\<close> calls come in
  non-decreasing order of priority ordinal, and in non-decreasing order of
  \<open>visibleFrom\<close> among equal priorities; they are exactly the notices that were in the
  queue.
\<close>

theorem drain_after_heap_operations_sorted:
  "sorted_wrt ple (drain (fold heap_step ops new_NoticeScheduler))
   \<and> mset (drain (fold heap_step ops new_NoticeScheduler))
       = mset (dispatchQueue (fold heap_step ops new_NoticeScheduler))"
  by (rule drain_heap [OF is_heap_run [OF is_heap_new]])

text \<open>Witness for C2: three insertions around one extraction.\<close>

theorem drain_after_heap_operations_sorted_witness:
  "sorted_wrt ple (drain (fold heap_step
      [Schedule 0 (mk_notice ''a'' LOW 10 90), Schedule 1 (mk_notice ''b'' EMERGENCY 20 90),
       GetNext, Schedule 2 (mk_notice ''c'' NORMAL 5 90), Schedule 3 (mk_notice ''d'' NORMAL 4 90)]
      new_NoticeScheduler))"
  using drain_after_heap_operations_sorted
    [of "[Schedule 0 (mk_notice ''a'' LOW 10 90), Schedule 1 (mk_notice ''b'' EMERGENCY 20 90),
          GetNext, Schedule 2 (mk_notice ''c'' NORMAL 5 90), Schedule 3 (mk_notice ''d'' NORMAL 4 90)]"]
  by blast


subsection \<open>Fields that activation leaves alone\<close>

lemma checkpoint_fields [simp]:
  "dispatchQueue (createDeliveryCheckpoint now tid n s) = dispatchQueue s"
  "activeNotices (createDeliveryCheckpoint now tid n s) = activeNotices s"
  "timerWheel (createDeliveryCheckpoint now tid n s) = timerWheel s"
  "currentTick (createDeliveryCheckpoint now tid n s) = currentTick s"
  by (simp_all add: createDeliveryCheckpoint_def Let_def)

lemma buffer_fields [simp]:
  "dispatchQueue (addToDisplayBuffer d n s) = dispatchQueue s"
  "activeNotices (addToDisplayBuffer d n s) = activeNotices s"
  "timerWheel (addToDisplayBuffer d n s) = timerWheel s"
  "currentTick (addToDisplayBuffer d n s) = currentTick s"
  by (simp_all add: addToDisplayBuffer_def Let_def)

lemma fold_checkpoint_fields [simp]:
  "dispatchQueue (fold (\<lambda>tid st. createDeliveryCheckpoint now tid n st) ts s) = dispatchQueue s"
  "activeNotices (fold (\<lambda>tid st. createDeliveryCheckpoint now tid n st) ts s) = activeNotices s"
  "timerWheel (fold (\<lambda>tid st. createDeliveryCheckpoint now tid n st) ts s) = timerWheel s"
  "currentTick (fold (\<lambda>tid st. createDeliveryCheckpoint now tid n st) ts s) = currentTick s"
  by (induction ts arbitrary: s) simp_all

lemma fold_buffer_fields [simp]:
  "dispatchQueue (fold (\<lambda>d st. addToDisplayBuffer d n st) ds s) = dispatchQueue s"
  "activeNotices (fold (\<lambda>d st. addToDisplayBuffer d n st) ds s) = activeNotices s"
  "timerWheel (fold (\<lambda>d st. addToDisplayBuffer d n st) ds s) = timerWheel s"
  "currentTick (fold (\<lambda>d st. addToDisplayBuffer d n st) ds s) = currentTick s"
  by (induction ds arbitrary: s) simp_all

lemma activate_fields [simp]:
  "dispatchQueue (activateNotice now n s) = dispatchQueue s"
  "activeNotices (activateNotice now n s) = (activeNotices s)(noticeId n \<mapsto> n)"
  "timerWheel (activateNotice now n s) = timerWheel s"
  "currentTick (activateNotice now n s) = currentTick s"
  by (simp_all add: activateNotice_def Let_def)

subsection \<open>Channel buffers\<close>

lemma shift_while_over_fits:
  "length buffer \<le> cap \<Longrightarrow> shift_while_over cap buffer = buffer"
  by (subst shift_while_over.simps) simp

lemma shift_while_over_full:
  "length buffer = cap \<Longrightarrow> shift_while_over cap (x # buffer) = buffer"
  by (subst shift_while_over.simps) (simp add: shift_while_over_fits)

text \<open>
  Claim C8 fails on the code. When the buffer of a channel already holds \<open>bufferSize\<close>
  notices, \<open>addToDisplayBuffer\<close> puts an EMERGENCY notice at the head and the loop that
  restores the size then shifts the head away: the buffer is what it was before the
  call, and the emergency notice is not in it.
\<close>

theorem addToDisplayBuffer_emergency_evicted_at_capacity:
  assumes "displayBuffers s d = Some buffer" and "length buffer = bufferSize s"
    and "priority notice = EMERGENCY"
  shows "displayBuffers (addToDisplayBuffer d notice s) d = Some buffer"
  using assms by (simp add: addToDisplayBuffer_def Let_def shift_while_over_full)

text \<open>Witness for C8: a \<open>lobby\<close> buffer of 100 NORMAL notices and one EMERGENCY notice.\<close>

theorem addToDisplayBuffer_emergency_evicted_at_capacity_witness:
  "displayBuffers (addToDisplayBuffer ''lobby'' (mk_notice ''e'' EMERGENCY 0 90) full_lobby) ''lobby''
     = Some (replicate 100 (mk_notice ''n'' NORMAL 0 90))
   \<and> mk_notice ''e'' EMERGENCY 0 90 \<notin> set (replicate 100 (mk_notice ''n'' NORMAL 0 90))"
proof -
  have b: "displayBuffers full_lobby ''lobby'' = Some (replicate 100 (mk_notice ''n'' NORMAL 0 90))"
    by (simp add: full_lobby_def)
  have l: "length (replicate 100 (mk_notice ''n'' NORMAL 0 90)) = bufferSize full_lobby"
    by (simp add: full_lobby_def new_NoticeScheduler_def)
  have p: "priority (mk_notice ''e'' EMERGENCY 0 90) = EMERGENCY"
    by (simp add: mk_notice_def)
  have "mk_notice ''e'' EMERGENCY 0 90 \<notin> set (replicate 100 (mk_notice ''n'' NORMAL 0 90))"
    by (simp add: mk_notice_def)
  with addToDisplayBuffer_emergency_evicted_at_capacity [OF b l p] show ?thesis by simp
qed

subsection \<open>The timing wheel\<close>

lemma processTimerWheel_empty_slot:
  assumes "0 \<le> currentTick s" and "timerWheel s ((currentTick s + 1) mod 3600) = None"
  shows "processTimerWheel now s = s\<lparr>currentTick := (currentTick s + 1) mod 3600\<rparr>"
  using assms by (simp add: processTimerWheel_def js_rem_def Let_def)

lemma run_ticks_skip:
  assumes "0 \<le> currentTick s" and "currentTick s < 3600"
    and "\<forall>k. 1 \<le> k \<and> k \<le> int n \<longrightarrow> timerWheel s ((currentTick s + k) mod 3600) = None"
  shows "run_ticks now n s = s\<lparr>currentTick := (currentTick s + int n) mod 3600\<rparr>"
  using assms
proof (induction n arbitrary: now s)
  case 0
  then show ?case by (simp add: run_ticks.simps)
next
  case (Suc n)
  let ?c = "currentTick s"
  let ?s1 = "s\<lparr>currentTick := (?c + 1) mod 3600\<rparr>"
  from Suc.prems(3) have "timerWheel s ((?c + 1) mod 3600) = None" by simp
  with Suc.prems(1) have step: "processTimerWheel now s = ?s1"
    by (rule processTimerWheel_empty_slot)
  have c1: "0 \<le> currentTick ?s1" "currentTick ?s1 < 3600" by simp_all
  have slots: "\<forall>k. 1 \<le> k \<and> k \<le> int n \<longrightarrow> timerWheel ?s1 ((currentTick ?s1 + k) mod 3600) = None"
  proof (intro allI impI)
    fix k :: int assume k: "1 \<le> k \<and> k \<le> int n"
    have "((?c + 1) mod 3600 + k) mod 3600 = ((?c + 1) + k) mod 3600"
      by (rule mod_add_left_eq)
    also have "(?c + 1) + k = ?c + (k + 1)" by simp
    finally have "((?c + 1) mod 3600 + k) mod 3600 = (?c + (k + 1)) mod 3600" .
    then have "(currentTick ?s1 + k) mod 3600 = (?c + (k + 1)) mod 3600"
      by simp
    moreover from k Suc.prems(3) have "timerWheel s ((?c + (k + 1)) mod 3600) = None" by simp
    ultimately show "timerWheel ?s1 ((currentTick ?s1 + k) mod 3600) = None" by simp
  qed
  have "run_ticks now (Suc n) s = run_ticks (now + 1000) n ?s1"
    by (simp only: run_ticks.simps step)
  also have "\<dots> = ?s1\<lparr>currentTick := (currentTick ?s1 + int n) mod 3600\<rparr>"
    using c1 slots by (rule Suc.IH)
  also have "\<dots> = s\<lparr>currentTick := (?c + int (Suc n)) mod 3600\<rparr>"
  proof -
    have "((?c + 1) mod 3600 + int n) mod 3600 = ((?c + 1) + int n) mod 3600"
      by (rule mod_add_left_eq)
    also have "(?c + 1) + int n = ?c + int (Suc n)" by simp
    finally have "((?c + 1) mod 3600 + int n) mod 3600 = (?c + int (Suc n)) mod 3600" .
    then show ?thesis by simp
  qed
  finally show ?case .
qed

lemma run_ticks_end:
  "run_ticks now (Suc n) s = processTimerWheel (now + 1000 * int n) (run_ticks now n s)"
proof (induction n arbitrary: now s)
  case 0
  then show ?case by (simp add: run_ticks.simps)
next
  case (Suc n)
  have "run_ticks now (Suc (Suc n)) s = run_ticks (now + 1000) (Suc n) (processTimerWheel now s)"
    by (simp only: run_ticks.simps)
  also have "\<dots> = processTimerWheel (now + 1000 + 1000 * int n)
                      (run_ticks (now + 1000) n (processTimerWheel now s))"
    by (rule Suc.IH)
  also have "now + 1000 + 1000 * int n = now + 1000 * int (Suc n)" by simp
  also have "run_ticks (now + 1000) n (processTimerWheel now s) = run_ticks now (Suc n) s"
    by (simp only: run_ticks.simps)
  finally show ?case .
qed

lemma after_first_tick:
  "run_ticks 1000 1 new_NoticeScheduler = new_NoticeScheduler\<lparr>currentTick := 1\<rparr>"
proof -
  have "run_ticks 1000 1 new_NoticeScheduler = processTimerWheel 1000 new_NoticeScheduler"
    by (simp only: One_nat_def run_ticks.simps)
  then show ?thesis
    by (simp add: processTimerWheel_def js_rem_def new_NoticeScheduler_def Let_def)
qed

lemma scheduled_expired:
  "timerWheel (scheduleNotice 1500 expired_notice (new_NoticeScheduler\<lparr>currentTick := 1\<rparr>))
     = [0 \<mapsto> [expired_notice]]"
  "currentTick (scheduleNotice 1500 expired_notice (new_NoticeScheduler\<lparr>currentTick := 1\<rparr>)) = 1"
  "activeNotices (scheduleNotice 1500 expired_notice (new_NoticeScheduler\<lparr>currentTick := 1\<rparr>))
     = Map.empty"
  "displayBuffers (scheduleNotice 1500 expired_notice (new_NoticeScheduler\<lparr>currentTick := 1\<rparr>))
     = Map.empty"
  "bufferSize (scheduleNotice 1500 expired_notice (new_NoticeScheduler\<lparr>currentTick := 1\<rparr>)) = 100"
  by (simp_all add: scheduleNotice_def addToTimingWheel_def insertIntoPriorityQueue_def
      new_NoticeScheduler_def js_rem_def Let_def expired_notice_def mk_notice_def)

text \<open>
  Claim C7 fails on the code. The notice \<open>old\<close> is scheduled at time 1500 with
  \<open>visibleUntil = 1200\<close>; it lands in slot 0 of the wheel, and the tick that reaches
  slot 0 an hour later, which only tests \<open>visibleFrom\<close>, activates it: it is in the
  active set and in the buffer of its channel.
\<close>

theorem expired_notice_activated_by_wheel:
  "visibleUntil expired_notice < 1500
   \<and> activeNotices late_state ''old'' = Some expired_notice
   \<and> displayBuffers late_state ''lobby'' = Some [expired_notice]"
proof -
  let ?s2 = "scheduleNotice 1500 expired_notice (new_NoticeScheduler\<lparr>currentTick := 1\<rparr>)"
  have slots: "\<forall>k. 1 \<le> k \<and> k \<le> int 3598 \<longrightarrow> timerWheel ?s2 ((currentTick ?s2 + k) mod 3600) = None"
  proof (intro allI impI)
    fix k :: int assume "1 \<le> k \<and> k \<le> int 3598"
    then have "0 \<le> 1 + k" "1 + k < 3600" by simp_all
    then have "(1 + k) mod 3600 = 1 + k" by (rule mod_pos_pos_trivial)
    with \<open>1 \<le> k \<and> k \<le> int 3598\<close> have "(1 + k) mod 3600 \<noteq> 0" by simp
    then show "timerWheel ?s2 ((currentTick ?s2 + k) mod 3600) = None"
      by (simp add: scheduled_expired)
  qed
  have c0: "0 \<le> currentTick ?s2" and c1: "currentTick ?s2 < 3600"
    by (simp_all add: scheduled_expired)
  have "(currentTick ?s2 + int 3598) mod 3600 = 3599" by (simp add: scheduled_expired)
  with run_ticks_skip [OF c0 c1 slots, of 2000]
  have skip: "run_ticks 2000 3598 ?s2 = ?s2\<lparr>currentTick := 3599\<rparr>" by (simp only:)
  have n: "(3599::nat) = Suc 3598" by simp
  have "late_state = run_ticks 2000 (Suc 3598) ?s2"
    by (simp only: late_state_def after_first_tick n)
  also have "\<dots> = processTimerWheel (2000 + 1000 * int 3598) (run_ticks 2000 3598 ?s2)"
    by (rule run_ticks_end)
  also have "\<dots> = processTimerWheel (2000 + 1000 * int 3598) (?s2\<lparr>currentTick := 3599\<rparr>)"
    by (simp only: skip)
  also have "2000 + 1000 * int 3598 = 3600000" by simp
  finally have ls: "late_state = processTimerWheel 3600000 (?s2\<lparr>currentTick := 3599\<rparr>)" .
  have e: "visibleFrom expired_notice = 1000" "noticeId expired_notice = ''old''"
    "targetAudience expired_notice = [''u1'']" "channels expired_notice = [''lobby'']"
    "priority expired_notice = NORMAL" "visibleUntil expired_notice = 1200"
    by (simp_all add: expired_notice_def mk_notice_def)
  have a: "activeNotices late_state ''old'' = Some expired_notice"
    unfolding ls by (simp add: processTimerWheel_def js_rem_def Let_def scheduled_expired e)
  have b: "displayBuffers late_state ''lobby'' = Some [expired_notice]"
    unfolding ls
    by (simp add: processTimerWheel_def js_rem_def Let_def scheduled_expired e activateNotice_def
        addToDisplayBuffer_def createDeliveryCheckpoint_def shift_while_over_fits)
  from a b e show ?thesis by simp
qed

subsection \<open>Activation and the pending queue\<close>

lemma findIndex_Some: "findIndex P xs = Some i \<Longrightarrow> i < length xs \<and> P (xs ! i)"
proof (induction xs arbitrary: i)
  case Nil
  then show ?case by simp
next
  case (Cons x xs)
  then show ?case by (auto split: if_splits option.splits)
qed

lemma findIndex_None: "findIndex P xs = None \<Longrightarrow> \<forall>x \<in> set xs. \<not> P x"
  by (induction xs) (auto split: if_splits option.splits)

lemma removeFromQueue_ids:
  "image_mset noticeId (mset (dispatchQueue (removeFromQueue n s)))
     = image_mset noticeId (mset (dispatchQueue s)) - {#noticeId n#}"
proof (cases "findIndex (\<lambda>x. noticeId x = noticeId n) (dispatchQueue s)")
  case None
  from findIndex_None [OF None]
  have "noticeId n \<notin># image_mset noticeId (mset (dispatchQueue s))" by auto
  then have "image_mset noticeId (mset (dispatchQueue s)) - {#noticeId n#}
      = image_mset noticeId (mset (dispatchQueue s))"
    by (rule diff_single_trivial)
  with None show ?thesis by (simp add: removeFromQueue_def)
next
  case (Some i)
  let ?q = "dispatchQueue s"
  from findIndex_Some [OF Some] have i: "i < length ?q" and id: "noticeId (?q ! i) = noticeId n"
    by simp_all
  then have ne: "?q \<noteq> []" by auto
  have q': "mset (dispatchQueue (removeFromQueue n s))
      = mset (if i < length (butlast ?q) then (butlast ?q)[i := last ?q] else butlast ?q)"
    using Some by (simp add: removeFromQueue_def Let_def mset_heapifyDown)
  have "mset (dispatchQueue (removeFromQueue n s)) = mset ?q - {#?q ! i#}"
    unfolding q' by (rule mset_remove_at [OF ne i])
  then have "image_mset noticeId (mset (dispatchQueue (removeFromQueue n s)))
      = image_mset noticeId (mset ?q - {#?q ! i#})"
    by (simp only:)
  also have "\<dots> = image_mset noticeId (mset ?q) - {#noticeId (?q ! i)#}"
    using i by (simp add: image_mset_Diff)
  finally show ?thesis by (simp only: id)
qed

lemma removeFromQueue_active [simp]:
  "activeNotices (removeFromQueue n s) = activeNotices s"
  by (simp add: removeFromQueue_def Let_def split: option.splits)

lemma scan_fold_ids:
  "image_mset noticeId (mset (dispatchQueue
        (fold (\<lambda>n st. removeFromQueue n (activateNotice now n st)) ns s)))
     = image_mset noticeId (mset (dispatchQueue s)) - image_mset noticeId (mset ns)"
proof (induction ns arbitrary: s)
  case Nil
  then show ?case by simp
next
  case (Cons n ns)
  have "image_mset noticeId (mset (dispatchQueue (removeFromQueue n (activateNotice now n s))))
      = image_mset noticeId (mset (dispatchQueue s)) - {#noticeId n#}"
    by (simp only: removeFromQueue_ids activate_fields)
  with Cons.IH [of "removeFromQueue n (activateNotice now n s)"] show ?case
    by simp
qed

lemma scan_fold_active_other:
  "k \<notin> noticeId ` set ns \<Longrightarrow>
     activeNotices (fold (\<lambda>n st. removeFromQueue n (activateNotice now n st)) ns s) k
       = activeNotices s k"
  by (induction ns arbitrary: s) simp_all

lemma scan_fold_active:
  "distinct (map noticeId ns) \<Longrightarrow> n \<in> set ns \<Longrightarrow>
     activeNotices (fold (\<lambda>n st. removeFromQueue n (activateNotice now n st)) ns s) (noticeId n)
       = Some n"
proof (induction ns arbitrary: s)
  case Nil
  then show ?case by simp
next
  case (Cons x xs)
  show ?case
  proof (cases "n = x")
    case True
    with Cons.prems(1) have "noticeId n \<notin> noticeId ` set xs" by simp
    then show ?thesis using True by (simp add: scan_fold_active_other)
  next
    case False
    with Cons show ?thesis by simp
  qed
qed

lemma scan_removes_activated:
  assumes d: "distinct (map noticeId (dispatchQueue s))"
    and n: "n \<in> set (dispatchQueue s)" "visibleFrom n \<le> now" "now < visibleUntil n"
  shows "noticeId n \<notin> noticeId ` set (dispatchQueue (processScheduledNotices now s))"
    and "activeNotices (processScheduledNotices now s) (noticeId n) = Some n"
proof -
  let ?ns = "filter (\<lambda>notice. visibleFrom notice \<le> now \<and> visibleUntil notice > now) (dispatchQueue s)"
  let ?s' = "processScheduledNotices now s"
  have s': "?s' = fold (\<lambda>n st. removeFromQueue n (activateNotice now n st)) ?ns s"
    by (simp add: processScheduledNotices_def)
  from n have mem: "n \<in> set ?ns" by simp
  from d have dn: "distinct (map noticeId ?ns)" by (rule distinct_map_filter)
  show "activeNotices ?s' (noticeId n) = Some n"
    unfolding s' using dn mem by (rule scan_fold_active)
  have ids: "image_mset noticeId (mset (dispatchQueue ?s'))
      = image_mset noticeId (mset (dispatchQueue s)) - image_mset noticeId (mset ?ns)"
    unfolding s' by (rule scan_fold_ids)
  from d have "count (mset (map noticeId (dispatchQueue s))) (noticeId n) \<le> 1"
    by (simp only: distinct_count_atmost_1) simp
  then have c1: "count (image_mset noticeId (mset (dispatchQueue s))) (noticeId n) \<le> 1"
    by simp
  from mem have "noticeId n \<in># image_mset noticeId (mset ?ns)" by force
  then have c2: "1 \<le> count (image_mset noticeId (mset ?ns)) (noticeId n)"
    by (simp only: count_greater_eq_one_iff)
  have "count (image_mset noticeId (mset (dispatchQueue ?s'))) (noticeId n)
      = count (image_mset noticeId (mset (dispatchQueue s))) (noticeId n)
        - count (image_mset noticeId (mset ?ns)) (noticeId n)"
    by (simp only: ids count_diff)
  with c1 c2 have "count (image_mset noticeId (mset (dispatchQueue ?s'))) (noticeId n) = 0"
    by linarith
  then have "noticeId n \<notin># image_mset noticeId (mset (dispatchQueue ?s'))"
    using count_eq_zero_iff by metis
  moreover have "set_mset (image_mset noticeId (mset (dispatchQueue ?s')))
      = noticeId ` set (dispatchQueue ?s')"
    by simp
  ultimately show "noticeId n \<notin> noticeId ` set (dispatchQueue ?s')" by blast
qed

text \<open>
  Claim C6, as amended. When the ids in the dispatch queue are pairwise different, every
  notice that the periodic scan activates is in the active set afterwards and the queue
  holds no entry with its id. \<open>preemptWithEmergency\<close> with an EMERGENCY notice puts the
  notice at the front of the dispatch queue and activates it, so the queue holds its id
  after the activation.
\<close>

theorem pending_queue_after_activation:
  assumes "distinct (map noticeId (dispatchQueue s))"
  shows "(\<forall>n \<in> set (dispatchQueue s). visibleFrom n \<le> now \<and> now < visibleUntil n \<longrightarrow>
            activeNotices (processScheduledNotices now s) (noticeId n) = Some n
            \<and> noticeId n \<notin> noticeId ` set (dispatchQueue (processScheduledNotices now s)))
       \<and> (priority e = EMERGENCY \<longrightarrow>
            (\<exists>s'. preemptWithEmergency now e s = Inr s'
               \<and> activeNotices s' (noticeId e) = Some e
               \<and> dispatchQueue s' = e # dispatchQueue s))"
proof (intro conjI ballI impI)
  fix n assume "n \<in> set (dispatchQueue s)" and "visibleFrom n \<le> now \<and> now < visibleUntil n"
  then have n: "n \<in> set (dispatchQueue s)" "visibleFrom n \<le> now" "now < visibleUntil n"
    by simp_all
  show "activeNotices (processScheduledNotices now s) (noticeId n) = Some n"
    using assms n by (rule scan_removes_activated(2))
  show "noticeId n \<notin> noticeId ` set (dispatchQueue (processScheduledNotices now s))"
    using assms n by (rule scan_removes_activated(1))
next
  assume "priority e = EMERGENCY"
  then show "\<exists>s'. preemptWithEmergency now e s = Inr s'
               \<and> activeNotices s' (noticeId e) = Some e
               \<and> dispatchQueue s' = e # dispatchQueue s"
    by (simp add: preemptWithEmergency_def)
qed

lemma two_pending_queue:
  "dispatchQueue two_pending = [mk_notice ''a'' NORMAL 10 90, mk_notice ''b'' LOW 200 900]"
proof -
  have h0: "heapifyUp [mk_notice ''a'' NORMAL 10 90] 0 = [mk_notice ''a'' NORMAL 10 90]"
    by (subst heapifyUp.simps) simp
  have h1: "heapifyUp [mk_notice ''a'' NORMAL 10 90, mk_notice ''b'' LOW 200 900] (Suc 0)
      = [mk_notice ''a'' NORMAL 10 90, mk_notice ''b'' LOW 200 900]"
    by (subst heapifyUp.simps) (simp add: comparePriority_def mk_notice_def)
  show ?thesis
    by (simp add: two_pending_def dispatchQueue_scheduleNotice insertIntoPriorityQueue_def
        new_NoticeScheduler_def h0 h1)
qed

text \<open>
  Witness for C6: the scan at time 50 activates \<open>a\<close> and leaves \<open>b\<close>; an emergency
  notice preempts.
\<close>

theorem pending_queue_after_activation_witness:
  "distinct (map noticeId (dispatchQueue two_pending))
   \<and> activeNotices (processScheduledNotices 50 two_pending) ''a'' = Some (mk_notice ''a'' NORMAL 10 90)
   \<and> ''a'' \<notin> noticeId ` set (dispatchQueue (processScheduledNotices 50 two_pending))
   \<and> (\<exists>s'. preemptWithEmergency 50 (mk_notice ''e'' EMERGENCY 0 90) two_pending = Inr s'
         \<and> activeNotices s' ''e'' = Some (mk_notice ''e'' EMERGENCY 0 90)
         \<and> dispatchQueue s' = mk_notice ''e'' EMERGENCY 0 90 # dispatchQueue two_pending)"
proof -
  have d: "distinct (map noticeId (dispatchQueue two_pending))"
    by (simp add: two_pending_queue mk_notice_def)
  have a: "mk_notice ''a'' NORMAL 10 90 \<in> set (dispatchQueue two_pending)"
    by (simp add: two_pending_queue)
  have w: "visibleFrom (mk_notice ''a'' NORMAL 10 90) \<le> 50 \<and> 50 < visibleUntil (mk_notice ''a'' NORMAL 10 90)"
    "noticeId (mk_notice ''a'' NORMAL 10 90) = ''a''"
    "priority (mk_notice ''e'' EMERGENCY 0 90) = EMERGENCY"
    "noticeId (mk_notice ''e'' EMERGENCY 0 90) = ''e''"
    by (simp_all add: mk_notice_def)
  from pending_queue_after_activation [OF d, of 50 "mk_notice ''e'' EMERGENCY 0 90"] a w d
  show ?thesis by (metis (no_types, lifting))
qed

text \<open>
  Counterexample to C6 as stated: after \<open>preemptWithEmergency\<close> on a new scheduler the
  notice \<open>e\<close> is active and the dispatch queue holds an entry with its id.
\<close>

theorem pending_queue_after_preempt_counterexample:
  "activeNotices (projr (preemptWithEmergency 0 (mk_notice ''e'' EMERGENCY 0 90) new_NoticeScheduler)) ''e''
     = Some (mk_notice ''e'' EMERGENCY 0 90)
   \<and> ''e'' \<in> noticeId ` set (dispatchQueue
        (projr (preemptWithEmergency 0 (mk_notice ''e'' EMERGENCY 0 90) new_NoticeScheduler)))"
  by (simp add: preemptWithEmergency_def mk_notice_def)

text \<open>
  The tick of the wheel never changes the dispatch queue, so a notice that the wheel
  activates keeps its queue entry until the periodic scan finds it.
\<close>

lemma fold_wheel_activation_queue:
  "dispatchQueue (fold (\<lambda>notice st. if visibleFrom notice \<le> now
                                        then activateNotice now notice st else st) ns s)
     = dispatchQueue s"
  by (induction ns arbitrary: s) simp_all

lemma processTimerWheel_keeps_queue:
  "dispatchQueue (processTimerWheel now s) = dispatchQueue s"
  by (simp add: processTimerWheel_def Let_def fold_wheel_activation_queue split: option.splits)

end
